theory Spec2Isabelle
  imports Main
begin

section \<open>Strings and decimal rendering\<close>

text \<open>
  The core of PhotoManager (\<^verbatim>\<open>photomanager_core.py\<close>) works on Python strings and
  \<^verbatim>\<open>pathlib.Path\<close> values. Strings are modelled as \<^typ>\<open>string\<close>.

  \<^verbatim>\<open>f"{i:03d}"\<close>: the decimal digits of an integer, zero-padded to width three, the
  sign (if any) first and counted in the width. Numbers of more than three digits are
  written in full.
\<close>

definition digit_char :: "nat \<Rightarrow> char" where
  "digit_char d = char_of (48 + d)"

fun decimal :: "nat \<Rightarrow> string" where
  "decimal n = (if n < 10 then [digit_char n] else decimal (n div 10) @ [digit_char (n mod 10)])"

declare decimal.simps [simp del]

definition zero_pad :: "nat \<Rightarrow> string \<Rightarrow> string" where
  "zero_pad w s = replicate (w - length s) (CHR ''0'') @ s"

definition fmt_03d :: "int \<Rightarrow> string" where
  "fmt_03d i =
     (if i < 0 then CHR ''-'' # zero_pad 2 (decimal (nat (- i)))
      else zero_pad 3 (decimal (nat i)))"

section \<open>Paths\<close>

text \<open>
  A path is the string \<^verbatim>\<open>str(path)\<close> of a \<^verbatim>\<open>pathlib\<close> path of the POSIX flavour.
  \<^verbatim>\<open>folder / name\<close> parses both operands: a name that starts with a slash replaces the
  folder; empty components and \<^verbatim>\<open>.\<close> components are dropped (\<^verbatim>\<open>..\<close> is kept); exactly
  two leading slashes are kept as the root \<^verbatim>\<open>//\<close>, any other number is the root \<^verbatim>\<open>/\<close>;
  a path with no root and no component is written \<^verbatim>\<open>.\<close>.
\<close>

type_synonym path = string

text \<open>\<^verbatim>\<open>s.split('/')\<close>.\<close>

fun split_slash :: "string \<Rightarrow> string list" where
  "split_slash [] = [[]]"
| "split_slash (c # cs) =
     (if c = CHR ''/'' then [] # split_slash cs
      else (case split_slash cs of x # xs \<Rightarrow> (c # x) # xs | [] \<Rightarrow> [[c]]))"

definition path_parts :: "string \<Rightarrow> string list" where
  "path_parts s = filter (\<lambda>x. x \<noteq> [] \<and> x \<noteq> ''.'') (split_slash s)"

definition path_root :: "string \<Rightarrow> string" where
  "path_root s =
     (let n = length (takeWhile (\<lambda>c. c = CHR ''/'') s)
      in if n = 0 then [] else if n = 2 then ''//'' else ''/'')"

text \<open>\<^verbatim>\<open>'/'.join(parts)\<close>.\<close>

fun join_slash :: "string list \<Rightarrow> string" where
  "join_slash [] = []"
| "join_slash [x] = x"
| "join_slash (x # y # ys) = x @ ''/'' @ join_slash (y # ys)"

definition render_path :: "string \<Rightarrow> string list \<Rightarrow> path" where
  "render_path root parts = (if root = [] \<and> parts = [] then ''.'' else root @ join_slash parts)"

definition path_join :: "path \<Rightarrow> string \<Rightarrow> path" where
  "path_join folder name =
     (if path_root name \<noteq> [] then render_path (path_root name) (path_parts name)
      else render_path (path_root folder) (path_parts folder @ path_parts name))"

section \<open>Configuration, images and the outside world\<close>

text \<open>
  An exception is the message \<^verbatim>\<open>str(e)\<close> it carries. Only instances of \<^verbatim>\<open>Exception\<close>
  are modelled: these are what the per-file operations raise and what
  \<^verbatim>\<open>except Exception\<close> catches.
\<close>

datatype exn = Exception string

fun message :: "exn \<Rightarrow> string" where
  "message (Exception m) = m"

record PhotoConfig =
  source_dir :: path
  dest_dir :: path
  max_width :: int
  max_height :: int
  quality :: int
  strip_metadata :: bool
  recursive :: bool
  rename_pattern :: string
  output_format :: string

record datetime =
  year :: nat
  month :: nat
  day :: nat
  hour :: nat
  minute :: nat
  second :: nat
  microsecond :: nat

text \<open>
  What the core reads of a \<^verbatim>\<open>PIL.Image\<close>: its mode and the two entries of
  \<^verbatim>\<open>im.info\<close> that are carried into the saved file.
\<close>

record image =
  mode :: string
  info_exif :: "string option"
  info_icc_profile :: "string option"

text \<open>An EXIF value is a \<^verbatim>\<open>str\<close> or something else (bytes, numbers, tuples).\<close>

datatype exif_value = Str string | NonStr

text \<open>The context handed to \<^verbatim>\<open>str.format\<close> and the keyword arguments of \<^verbatim>\<open>im.save\<close>.\<close>

record name_ctx =
  ctx_folder :: string
  ctx_date :: string
  ctx_counter :: int
  ctx_orig :: string

record save_kwargs =
  kw_format :: string
  kw_quality :: int
  kw_optimize :: bool
  kw_subsampling :: "string option"
  kw_exif :: "string option"
  kw_icc_profile :: "string option"

text \<open>
  Everything the core calls but does not define: the operating system, \<^verbatim>\<open>pathlib\<close>,
  \<^verbatim>\<open>str\<close>, \<^verbatim>\<open>datetime\<close>, \<^verbatim>\<open>print\<close> and Pillow. Each call that can raise returns a
  sum, \<open>Inl\<close> the exception. The general theorems below hold for every such world.
  \<^item> \<open>exists_error\<close>: the exception \<^verbatim>\<open>Path.exists()\<close> raises for a path, if it raises
    for it (for instance \<^verbatim>\<open>OSError\<close>, file name too long);
  \<^item> \<open>str_upper\<close>, \<open>str_lower\<close>: \<^verbatim>\<open>str.upper\<close> and \<^verbatim>\<open>str.lower\<close>, which follow Unicode;
  \<^item> \<open>getexif\<close>: the entries \<^verbatim>\<open>im.getexif().items()\<close> iterates, which are those of the
    first image directory; \<open>get_ifd_exif\<close>: the entries of the Exif directory of the
    image (\<^verbatim>\<open>im.getexif().get_ifd(0x8769)\<close>), which the core never asks for;
  \<^item> \<open>save\<close> creates the file only when it succeeds;
  \<^item> \<open>now\<close> is the clock reading taken while the given source file is processed;
  \<^item> \<open>print_line\<close>: \<^verbatim>\<open>print\<close> of one line to the standard output, which raises when
    the stream cannot encode the line.
\<close>

record world =
  mkdir :: "path \<Rightarrow> exn + unit"
  rglob :: "path \<Rightarrow> exn + path list"
  iterdir :: "path \<Rightarrow> exn + path list"
  is_file :: "path \<Rightarrow> bool"
  path_suffix :: "path \<Rightarrow> string"
  path_stem :: "path \<Rightarrow> string"
  path_name :: "path \<Rightarrow> string"
  exists_error :: "path \<Rightarrow> exn option"
  str_upper :: "string \<Rightarrow> string"
  str_lower :: "string \<Rightarrow> string"
  Image_open :: "path \<Rightarrow> exn + image"
  exif_transpose :: "image \<Rightarrow> exn + image"
  getexif :: "image \<Rightarrow> exn + (int \<times> exif_value) list"
  get_ifd_exif :: "image \<Rightarrow> (int \<times> exif_value) list"
  ExifTags_TAGS :: "int \<Rightarrow> string option"
  fromisoformat :: "string \<Rightarrow> exn + datetime"
  stat_mtime :: "path \<Rightarrow> exn + int"
  fromtimestamp :: "int \<Rightarrow> exn + datetime"
  now :: "path \<Rightarrow> datetime"
  thumbnail :: "image \<Rightarrow> int \<times> int \<Rightarrow> exn + image"
  save :: "image \<Rightarrow> path \<Rightarrow> save_kwargs \<Rightarrow> exn + unit"
  close :: "image \<Rightarrow> exn + unit"
  str_format :: "string \<Rightarrow> name_ctx \<Rightarrow> exn + string"
  print_line :: "string \<Rightarrow> exn + unit"

section \<open>The path allocator\<close>

text \<open>
  \<^verbatim>\<open>unique_path(folder, base_name, ext)\<close>. The file system is the set \<open>fs\<close> of the paths
  that exist; \<^verbatim>\<open>candidate.exists()\<close> raises where \<open>err\<close> says so and otherwise answers
  whether the path is in \<open>fs\<close>. The \<^verbatim>\<open>while True\<close> loop has no bound in the source, so
  it is a partial function: \<open>None\<close> is a loop that never returns, \<open>Some (Inl e)\<close> is the
  exception of \<^verbatim>\<open>exists()\<close> leaving the function.
\<close>

definition path_exists :: "(path \<Rightarrow> exn option) \<Rightarrow> path set \<Rightarrow> path \<Rightarrow> exn + bool" where
  "path_exists err fs p = (case err p of Some e \<Rightarrow> Inl e | None \<Rightarrow> Inr (p \<in> fs))"

partial_function (option) unique_loop ::
  "(path \<Rightarrow> exn option) \<Rightarrow> path set \<Rightarrow> path \<Rightarrow> string \<Rightarrow> string \<Rightarrow> nat
     \<Rightarrow> (exn + path) option" where
  "unique_loop err fs folder base_name ext i =
     (let candidate = path_join folder (base_name @ ''_'' @ fmt_03d (int i) @ ext) in
      case path_exists err fs candidate of
        Inl e \<Rightarrow> Some (Inl e)
      | Inr found \<Rightarrow>
          if \<not> found then Some (Inr candidate)
          else unique_loop err fs folder base_name ext (i + 1))"

definition unique_path ::
  "(path \<Rightarrow> exn option) \<Rightarrow> path set \<Rightarrow> path \<Rightarrow> string \<Rightarrow> string \<Rightarrow> (exn + path) option" where
  "unique_path err fs folder base_name ext =
     (let candidate = path_join folder (base_name @ ext) in
      case path_exists err fs candidate of
        Inl e \<Rightarrow> Some (Inl e)
      | Inr found \<Rightarrow>
          if \<not> found then Some (Inr candidate)
          else unique_loop err fs folder base_name ext 1)"

section \<open>Timestamp resolver\<close>

text \<open>\<^verbatim>\<open>v.replace(':', '-', 2)\<close>: the first \<open>n\<close> occurrences of a character replaced.\<close>

fun replace_char :: "char \<Rightarrow> char \<Rightarrow> nat \<Rightarrow> string \<Rightarrow> string" where
  "replace_char a b n [] = []"
| "replace_char a b n (c # cs) =
     (if n = 0 then c # cs
      else if c = a then b # replace_char a b (n - 1) cs
      else c # replace_char a b n cs)"

text \<open>
  The \<^verbatim>\<open>for k, v in exif.items()\<close> loop: the first entry whose tag is named
  DateTimeOriginal and whose value is a \<^verbatim>\<open>str\<close> decides; \<open>Inr None\<close> is a loop that
  ends without returning.
\<close>

fun scan_exif :: "world \<Rightarrow> (int \<times> exif_value) list \<Rightarrow> exn + datetime option" where
  "scan_exif w [] = Inr None"
| "scan_exif w ((k, Str v) # rest) =
     (if ExifTags_TAGS w k = Some ''DateTimeOriginal''
      then (case fromisoformat w (replace_char (CHR '':'') (CHR ''-'') 2 v) of
              Inl e \<Rightarrow> Inl e
            | Inr dt \<Rightarrow> Inr (Some dt))
      else scan_exif w rest)"
| "scan_exif w ((k, NonStr) # rest) = scan_exif w rest"

definition exif_datetime :: "world \<Rightarrow> image \<Rightarrow> path \<Rightarrow> exn + datetime" where
  "exif_datetime w img src =
     (case (case getexif w img of
              Inl e \<Rightarrow> Inl e
            | Inr exif \<Rightarrow> if exif \<noteq> [] then scan_exif w exif else Inr None) of
        Inr (Some dt) \<Rightarrow> Inr dt
      | _ \<Rightarrow>
          (case (case stat_mtime w src of Inl e \<Rightarrow> Inl e | Inr t \<Rightarrow> fromtimestamp w t) of
             Inr dt \<Rightarrow> Inr dt
           | Inl e \<Rightarrow> Inr (now w src)))"

section \<open>Colour mode\<close>

text \<open>
  \<^verbatim>\<open>img.convert(m)\<close> is the change of mode, \<^verbatim>\<open>im.info\<close> carried over. An image file that
  cannot be decoded shows in the operations of the world that read its pixels.
\<close>

definition convert :: "image \<Rightarrow> string \<Rightarrow> image" where
  "convert img m = img\<lparr>mode := m\<rparr>"

definition ensure_rgb :: "image \<Rightarrow> image" where
  "ensure_rgb img =
     (if mode img \<in> set [''RGBA'', ''LA'', ''P'', ''CMYK''] then convert img ''RGB'' else img)"

section \<open>Discovery\<close>

definition SUPPORTED_EXT :: "string set" where
  "SUPPORTED_EXT = {''.jpg'', ''.jpeg'', ''.png'', ''.bmp'', ''.tiff'', ''.tif'', ''.webp''}"

definition iter_images :: "world \<Rightarrow> path \<Rightarrow> bool \<Rightarrow> exn + path list" where
  "iter_images w dir recurse =
     (case (if recurse then rglob w dir else iterdir w dir) of
        Inl e \<Rightarrow> Inl e
      | Inr ps \<Rightarrow> Inr (filter (\<lambda>p. is_file w p \<and> str_lower w (path_suffix w p) \<in> SUPPORTED_EXT) ps))"

definition gather_images :: "world \<Rightarrow> PhotoConfig \<Rightarrow> exn + path list" where
  "gather_images w config = iter_images w (source_dir config) (recursive config)"

section \<open>Name builder\<close>

text \<open>\<^verbatim>\<open>dt.strftime('%Y%m%d')\<close>: four digits of year, two of month, two of day.\<close>

definition strftime_Ymd :: "datetime \<Rightarrow> string" where
  "strftime_Ymd dt =
     zero_pad 4 (decimal (year dt)) @ zero_pad 2 (decimal (month dt)) @ zero_pad 2 (decimal (day dt))"

text \<open>
  \<^verbatim>\<open>_build_base_name\<close> mutates the counters dictionary; the model returns the
  dictionary as the call leaves it, next to the name or the exception.
\<close>

definition setdefault :: "('k \<rightharpoonup> 'v) \<Rightarrow> 'k \<Rightarrow> 'v \<Rightarrow> ('k \<rightharpoonup> 'v)" where
  "setdefault d k v = (case d k of None \<Rightarrow> d(k \<mapsto> v) | Some _ \<Rightarrow> d)"

definition build_base_name ::
  "world \<Rightarrow> PhotoConfig \<Rightarrow> path \<Rightarrow> string \<Rightarrow> (string \<rightharpoonup> int) \<Rightarrow> datetime
     \<Rightarrow> (exn + string) \<times> (string \<rightharpoonup> int)" where
  "build_base_name w config src parent_name counters dt =
     (let day_key = strftime_Ymd dt;
          c1 = setdefault counters day_key 0
      in case c1 day_key of
           None \<Rightarrow> (Inl (Exception ''KeyError''), c1)
         | Some n \<Rightarrow>
             (let c2 = c1(day_key \<mapsto> n + 1)
              in case c2 day_key of
                   None \<Rightarrow> (Inl (Exception ''KeyError''), c2)
                 | Some cnt \<Rightarrow>
                     (let ctx = \<lparr>ctx_folder = parent_name, ctx_date = day_key,
                                 ctx_counter = cnt, ctx_orig = path_stem w src\<rparr>
                      in case (case str_format w (rename_pattern config) ctx of
                                 Inl e \<Rightarrow> Inl e
                               | Inr base \<Rightarrow>
                                   if base = [] then Inl (Exception ''empty name'') else Inr base) of
                           Inr base \<Rightarrow> (Inr base, c2)
                         | Inl e \<Rightarrow>
                             (Inr (parent_name @ ''_'' @ day_key @ ''_'' @ fmt_03d cnt), c2))))"

section \<open>Batch orchestrator\<close>

text \<open>
  Lines 163 to 167 of \<^verbatim>\<open>process_images\<close>: the encoder's format name is the upper-case
  form of the configured one; the extension is derived from it.
\<close>

definition output_ext :: "world \<Rightarrow> string \<Rightarrow> string" where
  "output_ext w output_fmt =
     (let fmt = str_upper w output_fmt
      in if fmt = ''JPEG'' then ''.jpg'' else ''.'' @ str_lower w fmt)"

text \<open>Python's truth value of \<^verbatim>\<open>im.info.get(key)\<close>: \<^verbatim>\<open>None\<close> and empty bytes are false.\<close>

definition truthy :: "string option \<Rightarrow> bool" where
  "truthy v = (case v of None \<Rightarrow> False | Some b \<Rightarrow> b \<noteq> [])"

definition make_save_kwargs :: "PhotoConfig \<Rightarrow> string \<Rightarrow> image \<Rightarrow> save_kwargs" where
  "make_save_kwargs config fmt im =
     (let kw0 = \<lparr>kw_format = fmt, kw_quality = quality config, kw_optimize = True,
                 kw_subsampling = None, kw_exif = None, kw_icc_profile = None\<rparr>;
          kw1 = (if fmt = ''JPEG'' then kw0\<lparr>kw_subsampling := Some ''4:2:0''\<rparr> else kw0)
      in if \<not> strip_metadata config
         then (let kw2 = (if truthy (info_exif im) then kw1\<lparr>kw_exif := info_exif im\<rparr> else kw1)
               in if truthy (info_icc_profile im)
                  then kw2\<lparr>kw_icc_profile := info_icc_profile im\<rparr> else kw2)
         else kw1)"

text \<open>
  The statements between the inner \<^verbatim>\<open>try:\<close> and its \<^verbatim>\<open>finally:\<close>, for an image that
  has been opened. The result is the outcome, the image the name \<^verbatim>\<open>im\<close> is bound to
  when the block is left (the one \<^verbatim>\<open>finally\<close> closes), the counters and the file
  system. \<open>None\<close> is a path allocator that never returns.
\<close>

definition pipeline_body ::
  "world \<Rightarrow> PhotoConfig \<Rightarrow> string \<Rightarrow> string \<Rightarrow> string \<Rightarrow> path \<Rightarrow> image
     \<Rightarrow> (string \<rightharpoonup> int) \<Rightarrow> path set
     \<Rightarrow> ((exn + unit) \<times> image \<times> (string \<rightharpoonup> int) \<times> path set) option" where
  "pipeline_body w config parent_name fmt ext src im0 cs fs =
     (case exif_transpose w im0 of
        Inl e \<Rightarrow> Some (Inl e, im0, cs, fs)
      | Inr im1 \<Rightarrow>
          (case exif_datetime w im1 src of
             Inl e \<Rightarrow> Some (Inl e, im1, cs, fs)
           | Inr dt \<Rightarrow>
               (case build_base_name w config src parent_name cs dt of
                  (Inl e, cs') \<Rightarrow> Some (Inl e, im1, cs', fs)
                | (Inr base_name, cs') \<Rightarrow>
                    (let im2 = ensure_rgb im1
                     in case thumbnail w im2 (max_width config, max_height config) of
                          Inl e \<Rightarrow> Some (Inl e, im2, cs', fs)
                        | Inr im3 \<Rightarrow>
                            (case unique_path (exists_error w) fs (dest_dir config) base_name ext of
                               None \<Rightarrow> None
                             | Some (Inl e) \<Rightarrow> Some (Inl e, im3, cs', fs)
                             | Some (Inr out_path) \<Rightarrow>
                                 (case save w im3 out_path (make_save_kwargs config fmt im3) of
                                    Inl e \<Rightarrow> Some (Inl e, im3, cs', fs)
                                  | Inr u \<Rightarrow> Some (Inr (), im3, cs', insert out_path fs)))))))"

text \<open>
  The \<^verbatim>\<open>try:\<close> block of one iteration up to its \<^verbatim>\<open>except\<close>: open, the body above, and
  \<^verbatim>\<open>finally: im.close()\<close>, whose own exception replaces the body's outcome.
\<close>

definition run_file ::
  "world \<Rightarrow> PhotoConfig \<Rightarrow> string \<Rightarrow> string \<Rightarrow> string \<Rightarrow> path
     \<Rightarrow> (string \<rightharpoonup> int) \<Rightarrow> path set
     \<Rightarrow> ((exn + unit) \<times> (string \<rightharpoonup> int) \<times> path set) option" where
  "run_file w config parent_name fmt ext src cs fs =
     (case Image_open w src of
        Inl e \<Rightarrow> Some (Inl e, cs, fs)
      | Inr im0 \<Rightarrow>
          (case pipeline_body w config parent_name fmt ext src im0 cs fs of
             None \<Rightarrow> None
           | Some (r, im, cs', fs') \<Rightarrow>
               (case close w im of
                  Inl e \<Rightarrow> Some (Inl e, cs', fs')
                | Inr u \<Rightarrow> Some (r, cs', fs'))))"

text \<open>
  The state of the \<^verbatim>\<open>for\<close> loop: the file system, the counters dictionary, what has
  been printed, the processed count, and the state \<open>'u\<close> of whoever owns the progress
  callback. A callback is a function on that state that returns or raises.
\<close>

record 'u run_state =
  st_disk :: "path set"
  st_counters :: "string \<rightharpoonup> int"
  st_stdout :: "string list"
  st_processed :: nat
  st_sink :: 'u

type_synonym 'u progress_callback = "nat \<Rightarrow> nat \<Rightarrow> 'u \<Rightarrow> exn + 'u"

definition error_line :: "path \<Rightarrow> exn \<Rightarrow> string" where
  "error_line src e = ''[ERREUR] '' @ src @ '': '' @ message e"

text \<open>
  Lines 204 to 206, after the \<^verbatim>\<open>try\<close> statement: the count goes up, then the callback
  is called. Nothing catches what the callback raises.
\<close>

definition report_progress ::
  "nat \<Rightarrow> 'u progress_callback option \<Rightarrow> 'u run_state \<Rightarrow> (exn + unit) \<times> 'u run_state" where
  "report_progress n_total progress_cb s =
     (let s1 = s\<lparr>st_processed := st_processed s + 1\<rparr>
      in case progress_cb of
           None \<Rightarrow> (Inr (), s1)
         | Some cb \<Rightarrow>
             (case cb (st_processed s1) n_total (st_sink s1) of
                Inl e \<Rightarrow> (Inl e, s1)
              | Inr u' \<Rightarrow> (Inr (), s1\<lparr>st_sink := u'\<rparr>)))"

text \<open>
  One iteration of the loop. The \<^verbatim>\<open>except Exception\<close> handler prints the error line;
  the \<^verbatim>\<open>print\<close> stands in no \<^verbatim>\<open>try\<close> of its own, so what it raises leaves the loop, before
  the count goes up. The result is the outcome of the iteration and the state it leaves.
\<close>

definition process_file ::
  "world \<Rightarrow> PhotoConfig \<Rightarrow> string \<Rightarrow> string \<Rightarrow> string \<Rightarrow> nat
     \<Rightarrow> 'u progress_callback option \<Rightarrow> path \<Rightarrow> 'u run_state
     \<Rightarrow> ((exn + unit) \<times> 'u run_state) option" where
  "process_file w config parent_name fmt ext n_total progress_cb src s =
     (case run_file w config parent_name fmt ext src (st_counters s) (st_disk s) of
        None \<Rightarrow> None
      | Some (r, cs', fs') \<Rightarrow>
          (let s1 = s\<lparr>st_disk := fs', st_counters := cs'\<rparr>
           in case r of
                Inr u \<Rightarrow> Some (report_progress n_total progress_cb s1)
              | Inl e \<Rightarrow>
                  (case print_line w (error_line src e) of
                     Inl e' \<Rightarrow> Some (Inl e', s1)
                   | Inr u \<Rightarrow>
                       Some (report_progress n_total progress_cb
                               (s1\<lparr>st_stdout := st_stdout s1 @ [error_line src e]\<rparr>)))))"

fun process_loop ::
  "world \<Rightarrow> PhotoConfig \<Rightarrow> string \<Rightarrow> string \<Rightarrow> string \<Rightarrow> nat
     \<Rightarrow> 'u progress_callback option \<Rightarrow> path list \<Rightarrow> 'u run_state
     \<Rightarrow> ((exn + unit) \<times> 'u run_state) option" where
  "process_loop w config parent_name fmt ext n_total progress_cb [] s = Some (Inr (), s)"
| "process_loop w config parent_name fmt ext n_total progress_cb (src # rest) s =
     (case process_file w config parent_name fmt ext n_total progress_cb src s of
        None \<Rightarrow> None
      | Some (Inl e, s') \<Rightarrow> Some (Inl e, s')
      | Some (Inr u, s') \<Rightarrow> process_loop w config parent_name fmt ext n_total progress_cb rest s')"

text \<open>
  What a call of \<^verbatim>\<open>process_images\<close> leaves behind: the value it returns or the
  exception it raises, the counters dictionary if line 160 created one, the file system,
  the printed lines and the callback owner's state.
\<close>

record 'u outcome =
  out_result :: "exn + nat"
  out_counters :: "(string \<rightharpoonup> int) option"
  out_disk :: "path set"
  out_stdout :: "string list"
  out_sink :: 'u

definition images_list :: "world \<Rightarrow> PhotoConfig \<Rightarrow> path list option \<Rightarrow> exn + path list" where
  "images_list w config images =
     (case images of None \<Rightarrow> gather_images w config | Some ps \<Rightarrow> Inr ps)"

definition loop_start :: "path set \<Rightarrow> 'u \<Rightarrow> 'u run_state" where
  "loop_start fs u =
     \<lparr>st_disk = fs, st_counters = Map.empty, st_stdout = [], st_processed = 0, st_sink = u\<rparr>"

definition process_images ::
  "world \<Rightarrow> PhotoConfig \<Rightarrow> path list option \<Rightarrow> 'u progress_callback option
     \<Rightarrow> path set \<Rightarrow> 'u \<Rightarrow> 'u outcome option" where
  "process_images w config images progress_cb fs u =
     (let src_dir = source_dir config; dst_dir = dest_dir config
      in case mkdir w dst_dir of
           Inl e \<Rightarrow>
             Some \<lparr>out_result = Inl e, out_counters = None, out_disk = fs,
                   out_stdout = [], out_sink = u\<rparr>
         | Inr unit \<Rightarrow>
             (let fs1 = insert dst_dir fs
              in case images_list w config images of
                   Inl e \<Rightarrow>
                     Some \<lparr>out_result = Inl e, out_counters = None, out_disk = fs1,
                           out_stdout = [], out_sink = u\<rparr>
                 | Inr lst \<Rightarrow>
                     (let n_total = length lst
                      in if n_total = 0
                         then Some \<lparr>out_result = Inr 0, out_counters = None, out_disk = fs1,
                                    out_stdout = [], out_sink = u\<rparr>
                         else (let parent_name = path_name w src_dir;
                                   fmt = str_upper w (output_format config);
                                   ext = output_ext w (output_format config)
                               in case process_loop w config parent_name fmt ext n_total
                                         progress_cb lst (loop_start fs1 u) of
                                    None \<Rightarrow> None
                                  | Some (r, s) \<Rightarrow>
                                      Some \<lparr>out_result =
                                              (case r of Inl e \<Rightarrow> Inl e
                                               | Inr u \<Rightarrow> Inr (st_processed s)),
                                            out_counters = Some (st_counters s),
                                            out_disk = st_disk s,
                                            out_stdout = st_stdout s,
                                            out_sink = st_sink s\<rparr>))))"

section \<open>Notions the properties are stated with\<close>

text \<open>
  The order in which the allocator tries names: number 0 is \<^verbatim>\<open><base_name><ext>\<close>,
  number \<open>k > 0\<close> is \<^verbatim>\<open><base_name>_<k:03d><ext>\<close>, each joined to the folder.
\<close>

definition candidate_at :: "path \<Rightarrow> string \<Rightarrow> string \<Rightarrow> nat \<Rightarrow> path" where
  "candidate_at folder base_name ext k =
     (if k = 0 then path_join folder (base_name @ ext)
      else path_join folder (base_name @ ''_'' @ fmt_03d (int k) @ ext))"

text \<open>
  The allocator stops at a candidate whose existence test raises or that does not exist;
  \<open>probe_result\<close> is what it then hands back.
\<close>

definition stops_at :: "(path \<Rightarrow> exn option) \<Rightarrow> path set \<Rightarrow> path \<Rightarrow> bool" where
  "stops_at err fs p = (err p \<noteq> None \<or> p \<notin> fs)"

definition probe_result :: "(path \<Rightarrow> exn option) \<Rightarrow> path \<Rightarrow> exn + path" where
  "probe_result err p = (case err p of Some e \<Rightarrow> Inl e | None \<Rightarrow> Inr p)"

text \<open>
  Reading a decimal numeral back, and the length of a joined list of components plus
  one: the measures used to tell candidates apart.
\<close>

definition digit_val :: "char \<Rightarrow> nat" where
  "digit_val c = of_char c - 48"

definition read_decimal :: "string \<Rightarrow> nat" where
  "read_decimal s = foldl (\<lambda>a c. 10 * a + digit_val c) 0 s"

definition path_weight :: "string list \<Rightarrow> nat" where
  "path_weight ps = sum_list (map length ps) + length ps"

text \<open>
  The embedded capture date as the specification describes it: the DateTimeOriginal
  field of the image's EXIF data, wherever the file stores it (the first image
  directory or the Exif directory), if it is a string in the EXIF form
  \<^verbatim>\<open>YYYY:MM:DD HH:MM:SS\<close> that denotes a date.
\<close>

fun is_date_entry :: "world \<Rightarrow> int \<times> exif_value \<Rightarrow> bool" where
  "is_date_entry w (k, Str v) = (ExifTags_TAGS w k = Some ''DateTimeOriginal'')"
| "is_date_entry w (k, NonStr) = False"

definition exif_entries :: "world \<Rightarrow> image \<Rightarrow> (int \<times> exif_value) list" where
  "exif_entries w img =
     (case getexif w img of Inl e \<Rightarrow> [] | Inr ifd0 \<Rightarrow> ifd0) @ get_ifd_exif w img"

definition embedded_date :: "world \<Rightarrow> image \<Rightarrow> datetime option" where
  "embedded_date w img =
     (case filter (is_date_entry w) (exif_entries w img) of
        (k, Str v) # rest \<Rightarrow>
          (case fromisoformat w (replace_char (CHR '':'') (CHR ''-'') 2 v) of
             Inl e \<Rightarrow> None
           | Inr dt \<Rightarrow> Some dt)
      | _ \<Rightarrow> None)"

text \<open>
  Pillow's image modes, as its handbook lists them: the modes with an alpha channel
  (\<^verbatim>\<open>RGBA\<close>, \<^verbatim>\<open>LA\<close>, \<^verbatim>\<open>PA\<close> and the premultiplied \<^verbatim>\<open>RGBa\<close>, \<^verbatim>\<open>La\<close>), the palette modes
  (\<^verbatim>\<open>P\<close>, \<^verbatim>\<open>PA\<close>) and the four-channel \<^verbatim>\<open>CMYK\<close>.
\<close>

definition mode_has_alpha :: "string \<Rightarrow> bool" where
  "mode_has_alpha m = (m \<in> set [''RGBA'', ''LA'', ''PA'', ''RGBa'', ''La''])"

definition mode_is_palette :: "string \<Rightarrow> bool" where
  "mode_is_palette m = (m \<in> set [''P'', ''PA''])"

definition mode_is_cmyk :: "string \<Rightarrow> bool" where
  "mode_is_cmyk m = (m = ''CMYK'')"

text \<open>
  Calendar days. A file reaches the name builder when it can be opened and its
  orientation corrected; \<open>naming_date\<close> is the date it is named with then.
\<close>

definition same_day :: "datetime \<Rightarrow> datetime \<Rightarrow> bool" where
  "same_day a b = (year a = year b \<and> month a = month b \<and> day a = day b)"

definition valid_date :: "datetime \<Rightarrow> bool" where
  "valid_date dt = (1 \<le> month dt \<and> month dt \<le> 12 \<and> 1 \<le> day dt \<and> day dt \<le> 31)"

definition naming_date :: "world \<Rightarrow> path \<Rightarrow> datetime option" where
  "naming_date w src =
     (case Image_open w src of
        Inl e \<Rightarrow> None
      | Inr im0 \<Rightarrow>
          (case exif_transpose w im0 of
             Inl e \<Rightarrow> None
           | Inr im1 \<Rightarrow> (case exif_datetime w im1 src of Inl e \<Rightarrow> None | Inr dt \<Rightarrow> Some dt)))"

definition named_on :: "world \<Rightarrow> datetime \<Rightarrow> path \<Rightarrow> bool" where
  "named_on w d src = (case naming_date w src of None \<Rightarrow> False | Some dt \<Rightarrow> same_day dt d)"

definition named_validly :: "world \<Rightarrow> path \<Rightarrow> bool" where
  "named_validly w src = (case naming_date w src of None \<Rightarrow> True | Some dt \<Rightarrow> valid_date dt)"

text \<open>A progress callback that returns normally, and one that records its arguments.\<close>

definition returning :: "(nat \<Rightarrow> nat \<Rightarrow> 'u \<Rightarrow> 'u) \<Rightarrow> 'u progress_callback" where
  "returning g n t u = Inr (g n t u)"

definition record_call :: "nat \<Rightarrow> nat \<Rightarrow> (nat \<times> nat) list \<Rightarrow> (nat \<times> nat) list" where
  "record_call n t u = u @ [(n, t)]"

section \<open>A small world to run the model in\<close>

text \<open>
  The case mapping of the small world: the ASCII letters, and the sharp s (the UTF-8
  bytes C3 9F), whose upper-case form is \<^verbatim>\<open>SS\<close>, as in Python.
\<close>

definition ascii_upper :: "char \<Rightarrow> char" where
  "ascii_upper c =
     (let n = (of_char c :: nat) in if 97 \<le> n \<and> n \<le> 122 then char_of (n - 32) else c)"

definition ascii_lower :: "char \<Rightarrow> char" where
  "ascii_lower c =
     (let n = (of_char c :: nat) in if 65 \<le> n \<and> n \<le> 90 then char_of (n + 32) else c)"

fun small_upper :: "string \<Rightarrow> string" where
  "small_upper [] = []"
| "small_upper [c] = [ascii_upper c]"
| "small_upper (c # d # cs) =
     (if c = CHR 0xC3 \<and> d = CHR 0x9F then ''SS'' @ small_upper cs
      else ascii_upper c # small_upper (d # cs))"

definition small_lower :: "string \<Rightarrow> string" where
  "small_lower s = map ascii_lower s"

definition sharp_s :: string where
  "sharp_s = [CHR 0xC3, CHR 0x9F]"

text \<open>
  The files of the small world.
  \<^item> \<^verbatim>\<open>in/a.jpg\<close> is a camera file: its DateTimeOriginal (24 December 2023) is in the
    Exif directory, the first directory holds the maker and the pointer to the Exif
    directory;
  \<^item> \<^verbatim>\<open>in/c.jpg\<close> has a DateTimeOriginal entry (2 June 2024) in its first directory;
  \<^item> \<^verbatim>\<open>in/b.png\<close> has a palette and no EXIF data;
  \<^item> \<^verbatim>\<open>in/d.png\<close> has a palette and an alpha channel (mode \<^verbatim>\<open>PA\<close>);
  \<^item> every other file, such as \<^verbatim>\<open>in/bad.jpg\<close> and the file whose name holds the byte E9,
    cannot be opened.
  Listing the folder \<^verbatim>\<open>in\<close> gives \<^verbatim>\<open>a.jpg\<close>, \<^verbatim>\<open>notes.txt\<close>, \<^verbatim>\<open>bad.jpg\<close> and \<^verbatim>\<open>b.png\<close>.
  Every file was last modified on 17 May 2024. The formatter knows the default pattern
  and the pattern \<^verbatim>\<open>{orig}\<close>; every other pattern raises. \<^verbatim>\<open>exists()\<close> raises for paths
  of more than 255 characters. The JPEG writer takes the modes \<^verbatim>\<open>1\<close>, \<^verbatim>\<open>L\<close>, \<^verbatim>\<open>RGB\<close>,
  \<^verbatim>\<open>RGBX\<close>, \<^verbatim>\<open>CMYK\<close> and \<^verbatim>\<open>YCbCr\<close>, as Pillow's does, and raises for every other. The
  standard output takes every line.
\<close>

definition may17 :: datetime where
  "may17 = \<lparr>year = 2024, month = 5, day = 17, hour = 10, minute = 30, second = 0, microsecond = 0\<rparr>"

definition jun02 :: datetime where
  "jun02 = \<lparr>year = 2024, month = 6, day = 2, hour = 8, minute = 0, second = 0, microsecond = 0\<rparr>"

definition dec24 :: datetime where
  "dec24 = \<lparr>year = 2023, month = 12, day = 24, hour = 18, minute = 0, second = 0, microsecond = 0\<rparr>"

definition camera_image :: image where
  "camera_image = \<lparr>mode = ''RGB'', info_exif = Some ''II*'', info_icc_profile = None\<rparr>"

definition cafe_jpg :: path where
  "cafe_jpg = ''in/caf'' @ [CHR 0xE9] @ ''.jpg''"

definition demo_world :: world where
  "demo_world =
     \<lparr>mkdir = (\<lambda>d. Inr ()),
      rglob = (\<lambda>d. Inr [''in/a.jpg'', ''in/notes.txt'', ''in/bad.jpg'', ''in/b.png'']),
      iterdir = (\<lambda>d. Inr [''in/a.jpg'', ''in/notes.txt'', ''in/bad.jpg'', ''in/b.png'']),
      is_file = (\<lambda>p. True),
      path_suffix = (\<lambda>p. drop (length p - 4) p),
      path_stem = (\<lambda>p. take (length p - 7) (drop 3 p)),
      path_name = (\<lambda>p. p),
      exists_error = (\<lambda>p.
        if 255 < length p then Some (Exception ''[Errno 36] File name too long'') else None),
      str_upper = small_upper,
      str_lower = small_lower,
      Image_open = (\<lambda>p.
        if p = ''in/a.jpg'' then Inr camera_image
        else if p = ''in/c.jpg''
        then Inr \<lparr>mode = ''RGB'', info_exif = Some ''MM*'', info_icc_profile = None\<rparr>
        else if p = ''in/b.png'' then Inr \<lparr>mode = ''P'', info_exif = None, info_icc_profile = None\<rparr>
        else if p = ''in/d.png'' then Inr \<lparr>mode = ''PA'', info_exif = None, info_icc_profile = None\<rparr>
        else Inl (Exception ''cannot identify image file'')),
      exif_transpose = (\<lambda>im. Inr im),
      getexif = (\<lambda>im.
        if info_exif im = Some ''II*'' then Inr [(271, Str ''Camera''), (34665, NonStr)]
        else if info_exif im = Some ''MM*'' then Inr [(36867, Str ''2024:06:02 08:00:00'')]
        else Inr []),
      get_ifd_exif = (\<lambda>im.
        if info_exif im = Some ''II*'' then [(36867, Str ''2023:12:24 18:00:00'')] else []),
      ExifTags_TAGS = (\<lambda>k.
        if k = 36867 then Some ''DateTimeOriginal''
        else if k = 34665 then Some ''ExifOffset''
        else if k = 271 then Some ''Make'' else None),
      fromisoformat = (\<lambda>v.
        if v = ''2023-12-24 18:00:00'' then Inr dec24
        else if v = ''2024-06-02 08:00:00'' then Inr jun02
        else Inl (Exception ''Invalid isoformat string'')),
      stat_mtime = (\<lambda>p. Inr 1715934600),
      fromtimestamp = (\<lambda>t. Inr may17),
      now = (\<lambda>p. jun02),
      thumbnail = (\<lambda>im box. Inr im),
      save = (\<lambda>im p kw.
        if kw_format kw = ''JPEG''
           \<and> mode im \<notin> set [''1'', ''L'', ''RGB'', ''RGBX'', ''CMYK'', ''YCbCr'']
        then Inl (Exception (''cannot write mode '' @ mode im @ '' as JPEG''))
        else Inr ()),
      close = (\<lambda>im. Inr ()),
      str_format = (\<lambda>pat ctx.
        if pat = ''{folder}_{date}_{counter:03d}''
        then Inr (ctx_folder ctx @ ''_'' @ ctx_date ctx @ ''_'' @ fmt_03d (ctx_counter ctx))
        else if pat = ''{orig}'' then Inr (ctx_orig ctx)
        else Inl (Exception ''KeyError'')),
      print_line = (\<lambda>l. Inr ())\<rparr>"

text \<open>The same world with a standard output that encodes ASCII only.\<close>

definition ascii_stdout :: "string \<Rightarrow> exn + unit" where
  "ascii_stdout l =
     (if list_all (\<lambda>c. (of_char c :: nat) < 128) l then Inr ()
      else Inl (Exception ''UnicodeEncodeError''))"

definition strict_world :: world where
  "strict_world = demo_world\<lparr>print_line := ascii_stdout\<rparr>"

definition demo_config :: PhotoConfig where
  "demo_config =
     \<lparr>source_dir = ''in'', dest_dir = ''out'', max_width = 800, max_height = 600, quality = 70,
      strip_metadata = False, recursive = True,
      rename_pattern = ''{folder}_{date}_{counter:03d}'', output_format = ''JPEG''\<rparr>"


declare unique_loop.simps [code]


section \<open>Decimal rendering is injective\<close>

lemma digit_val_digit_char: "d < 10 \<Longrightarrow> digit_val (digit_char d) = d"
  by (simp add: digit_val_def digit_char_def)

lemma read_decimal_snoc: "read_decimal (s @ [c]) = 10 * read_decimal s + digit_val c"
  by (simp add: read_decimal_def)

lemma read_decimal_decimal: "read_decimal (decimal n) = n"
proof (induction n rule: decimal.induct)
  case (1 n)
  show ?case
  proof (cases "n < 10")
    case True
    then show ?thesis
      by (simp add: decimal.simps [of n] read_decimal_def digit_val_digit_char)
  next
    case False
    with "1" show ?thesis
      by (simp add: decimal.simps [of n] read_decimal_snoc digit_val_digit_char)
  qed
qed

lemma read_decimal_zeros: "read_decimal (replicate k (CHR ''0'') @ s) = read_decimal s"
proof -
  have "foldl (\<lambda>a c. 10 * a + digit_val c) 0 (replicate k (CHR ''0'')) = 0"
    by (induction k) (simp_all add: digit_val_def)
  then show ?thesis by (simp add: read_decimal_def)
qed

lemma read_decimal_fmt_03d: "read_decimal (fmt_03d (int k)) = k"
  by (simp add: fmt_03d_def zero_pad_def read_decimal_zeros read_decimal_decimal)

lemma fmt_03d_inj: "fmt_03d (int j) = fmt_03d (int k) \<Longrightarrow> j = k"
  by (metis read_decimal_fmt_03d)

lemma digit_char_not_slash: "d < 10 \<Longrightarrow> digit_char d \<noteq> CHR ''/''"
proof
  assume "d < 10" and "digit_char d = CHR ''/''"
  then have "(of_char (char_of (48 + d)) :: nat) = of_char (CHR ''/'')"
    by (simp add: digit_char_def)
  with \<open>d < 10\<close> show False by simp
qed

lemma decimal_no_slash: "CHR ''/'' \<notin> set (decimal n)"
proof (induction n rule: decimal.induct)
  case (1 n)
  show ?case
  proof (cases "n < 10")
    case True
    then show ?thesis
      using digit_char_not_slash [of n] by (simp add: decimal.simps [of n])
  next
    case False
    with "1" show ?thesis
      using digit_char_not_slash [of "n mod 10"] by (simp add: decimal.simps [of n])
  qed
qed

lemma fmt_03d_no_slash: "CHR ''/'' \<notin> set (fmt_03d (int k))"
  by (simp add: fmt_03d_def zero_pad_def decimal_no_slash)

lemma fmt_03d_length: "3 \<le> length (fmt_03d (int k))"
  by (simp add: fmt_03d_def zero_pad_def)

section \<open>Joining a candidate name to the folder\<close>

lemma split_slash_nonempty: "split_slash s \<noteq> []"
  by (induction s) (auto split: list.splits)

lemma split_slash_append:
  "split_slash (a @ b) =
     butlast (split_slash a) @ (last (split_slash a) @ hd (split_slash b)) # tl (split_slash b)"
proof (induction a)
  case Nil
  show ?case using split_slash_nonempty [of b] by simp
next
  case (Cons c a)
  obtain x xs where S: "split_slash a = x # xs"
    using split_slash_nonempty [of a] by (cases "split_slash a") auto
  show ?case
  proof (cases "c = CHR ''/''")
    case True
    with Cons S show ?thesis by simp
  next
    case False
    with Cons S show ?thesis by (cases xs) simp_all
  qed
qed

lemma split_slash_plain: "CHR ''/'' \<notin> set m \<Longrightarrow> split_slash m = [m]"
  by (induction m) auto

lemma split_slash_middle:
  assumes "CHR ''/'' \<notin> set m"
  shows "split_slash (b @ m @ e) =
           butlast (split_slash b) @ (last (split_slash b) @ m @ hd (split_slash e)) # tl (split_slash e)"
proof -
  have "split_slash (m @ e) = (m @ hd (split_slash e)) # tl (split_slash e)"
    by (simp add: split_slash_append [of m e] split_slash_plain [OF assms])
  then show ?thesis
    by (simp add: split_slash_append [of b "m @ e"])
qed

lemma path_parts_middle:
  assumes "CHR ''/'' \<notin> set m" and "CHR ''_'' \<in> set m"
  shows "path_parts (b @ m @ e) =
           filter (\<lambda>x. x \<noteq> [] \<and> x \<noteq> ''.'') (butlast (split_slash b))
           @ (last (split_slash b) @ m @ hd (split_slash e))
           # filter (\<lambda>x. x \<noteq> [] \<and> x \<noteq> ''.'') (tl (split_slash e))"
proof -
  let ?mid = "last (split_slash b) @ m @ hd (split_slash e)"
  from assms(2) have "CHR ''_'' \<in> set ?mid" by simp
  moreover have "CHR ''_'' \<notin> set ''.''" by simp
  ultimately have "?mid \<noteq> ''.''" by metis
  moreover from assms(2) have "?mid \<noteq> []" by auto
  ultimately show ?thesis
    by (simp add: path_parts_def split_slash_middle [OF assms(1)])
qed

lemma path_parts_plain:
  "path_parts (b @ e) =
     filter (\<lambda>x. x \<noteq> [] \<and> x \<noteq> ''.'') (butlast (split_slash b))
     @ filter (\<lambda>x. x \<noteq> [] \<and> x \<noteq> ''.'') [last (split_slash b) @ hd (split_slash e)]
     @ filter (\<lambda>x. x \<noteq> [] \<and> x \<noteq> ''.'') (tl (split_slash e))"
  by (simp add: path_parts_def split_slash_append [of b e])

lemma takeWhile_stop: "\<not> P c \<Longrightarrow> takeWhile P (a @ c # r) = takeWhile P a"
  by (induction a) simp_all

lemma path_root_middle: "c \<noteq> CHR ''/'' \<Longrightarrow> path_root (b @ c # r) = path_root (b @ [c])"
  by (simp add: path_root_def takeWhile_stop)

lemma join_slash_Cons: "join_slash (m # ys) = m @ (if ys = [] then [] else ''/'' @ join_slash ys)"
  by (cases ys) simp_all

lemma join_slash_middle: "\<exists>p q. \<forall>m. join_slash (xs @ m # ys) = p @ m @ q"
proof (induction xs)
  case Nil
  have "\<forall>m. join_slash ([] @ m # ys) = [] @ m @ (if ys = [] then [] else ''/'' @ join_slash ys)"
    by (simp add: join_slash_Cons)
  then show ?case by blast
next
  case (Cons x xs)
  then obtain p q where pq: "\<forall>m. join_slash (xs @ m # ys) = p @ m @ q" by blast
  have "\<forall>m. join_slash ((x # xs) @ m # ys) = (x @ ''/'' @ p) @ m @ q"
  proof
    fix m
    have "join_slash ((x # xs) @ m # ys) = x @ ''/'' @ join_slash (xs @ m # ys)"
      by (simp add: join_slash_Cons [of x])
    with pq show "join_slash ((x # xs) @ m # ys) = (x @ ''/'' @ p) @ m @ q" by simp
  qed
  then show ?case by blast
qed

lemma render_path_middle: "\<exists>p q. \<forall>m. render_path r (xs @ m # ys) = p @ m @ q"
proof -
  from join_slash_middle [of xs ys] obtain p q where
    "\<forall>m. join_slash (xs @ m # ys) = p @ m @ q" by blast
  then have "\<forall>m. render_path r (xs @ m # ys) = (r @ p) @ m @ q"
    by (simp add: render_path_def)
  then show ?thesis by blast
qed

lemma path_join_middle:
  "\<exists>p q. \<forall>m. CHR ''/'' \<notin> set m \<longrightarrow>
           path_join f (b @ CHR ''_'' # m @ e) = p @ (CHR ''_'' # m) @ q"
proof -
  let ?ok = "\<lambda>x. x \<noteq> [] \<and> x \<noteq> ''.''"
  let ?A = "filter ?ok (butlast (split_slash b))"
  let ?B = "filter ?ok (tl (split_slash e))"
  let ?L = "last (split_slash b)"
  let ?H = "hd (split_slash e)"
  have parts: "path_parts (b @ CHR ''_'' # m @ e) = ?A @ (?L @ (CHR ''_'' # m) @ ?H) # ?B"
    if "CHR ''/'' \<notin> set m" for m
    using that path_parts_middle [of "CHR ''_'' # m" b e] by simp
  have root: "path_root (b @ CHR ''_'' # m @ e) = path_root (b @ ''_'')" for m
    using path_root_middle [of "CHR ''_''" b "m @ e"] by simp
  show ?thesis
  proof (cases "path_root (b @ ''_'') \<noteq> []")
    case True
    from render_path_middle [of "path_root (b @ ''_'')" ?A ?B] obtain p q where
      pq: "\<forall>x. render_path (path_root (b @ ''_'')) (?A @ x # ?B) = p @ x @ q" by blast
    have "\<forall>m. CHR ''/'' \<notin> set m \<longrightarrow>
           path_join f (b @ CHR ''_'' # m @ e) = (p @ ?L) @ (CHR ''_'' # m) @ (?H @ q)"
      using True pq by (simp add: path_join_def root parts)
    then show ?thesis by blast
  next
    case False
    from render_path_middle [of "path_root f" "path_parts f @ ?A" ?B] obtain p q where
      pq: "\<forall>x. render_path (path_root f) ((path_parts f @ ?A) @ x # ?B) = p @ x @ q" by blast
    have "\<forall>m. CHR ''/'' \<notin> set m \<longrightarrow>
           path_join f (b @ CHR ''_'' # m @ e) = (p @ ?L) @ (CHR ''_'' # m) @ (?H @ q)"
      using False pq by (simp add: path_join_def root parts)
    then show ?thesis by blast
  qed
qed

lemma candidate_at_inj_pos:
  assumes "candidate_at f b e j = candidate_at f b e k" and "0 < j" and "0 < k"
  shows "j = k"
proof -
  from path_join_middle [of f b e] obtain p q where
    pq: "\<forall>m. CHR ''/'' \<notin> set m \<longrightarrow> path_join f (b @ CHR ''_'' # m @ e) = p @ (CHR ''_'' # m) @ q"
    by auto
  have shape: "candidate_at f b e i = p @ (CHR ''_'' # fmt_03d (int i)) @ q" if "0 < i" for i
    using that pq fmt_03d_no_slash [of i] by (simp add: candidate_at_def)
  from assms have "p @ (CHR ''_'' # fmt_03d (int j)) @ q = p @ (CHR ''_'' # fmt_03d (int k)) @ q"
    by (simp add: shape)
  then have "fmt_03d (int j) = fmt_03d (int k)" by simp
  then show ?thesis by (rule fmt_03d_inj)
qed

lemma path_weight_append: "path_weight (xs @ ys) = path_weight xs + path_weight ys"
  by (simp add: path_weight_def)

lemma path_weight_Cons: "path_weight (x # xs) = length x + 1 + path_weight xs"
  by (simp add: path_weight_def)

lemma length_join_slash: "length (join_slash ps) = path_weight ps - 1"
  by (induction ps rule: join_slash.induct) (simp_all add: path_weight_def)

lemma path_weight_zero: "path_weight ps = 0 \<longleftrightarrow> ps = []"
  by (cases ps) (simp_all add: path_weight_def)

lemma length_render_path:
  "length (render_path r ps) = (if r = [] \<and> ps = [] then 1 else length r + (path_weight ps - 1))"
  by (simp add: render_path_def length_join_slash)

lemma length_path_root: "length (path_root s) \<le> 2"
  by (simp add: path_root_def Let_def)

lemma path_root_rooted: "path_root (b @ ''_'') \<noteq> [] \<Longrightarrow> path_root (b @ e) \<noteq> []"
  by (cases b) (simp_all add: path_root_def Let_def split: if_splits)

lemma path_weight_filter_single:
  "path_weight (filter P [x]) \<le> length x + 1"
  by (simp add: path_weight_def)

lemma candidate_longer:
  assumes "0 < k"
  shows "length (candidate_at f b e 0) < length (candidate_at f b e k)"
proof -
  let ?ok = "\<lambda>x. x \<noteq> [] \<and> x \<noteq> ''.''"
  let ?A = "filter ?ok (butlast (split_slash b))"
  let ?B = "filter ?ok (tl (split_slash e))"
  let ?L = "last (split_slash b)"
  let ?H = "hd (split_slash e)"
  let ?m = "CHR ''_'' # fmt_03d (int k)"
  let ?n0 = "b @ e"
  let ?nk = "b @ CHR ''_'' # fmt_03d (int k) @ e"
  have partsk: "path_parts ?nk = ?A @ (?L @ ?m @ ?H) # ?B"
    using path_parts_middle [of ?m b e] fmt_03d_no_slash [of k] by simp
  have parts0: "path_parts ?n0 = ?A @ filter ?ok [?L @ ?H] @ ?B"
    by (rule path_parts_plain)
  have nek: "path_parts ?nk \<noteq> []" by (simp add: partsk)
  have m: "4 \<le> length ?m" using fmt_03d_length [of k] by simp
  have wk: "path_weight (path_parts ?nk)
      = path_weight ?A + path_weight ?B + length ?L + length ?m + length ?H + 1"
    by (simp add: partsk path_weight_append path_weight_Cons)
  have w0: "path_weight (path_parts ?n0) \<le> path_weight ?A + path_weight ?B + length ?L + length ?H + 1"
    using path_weight_filter_single [of ?ok "?L @ ?H"]
    by (simp add: parts0 path_weight_append)
  from wk w0 m have gap: "path_weight (path_parts ?n0) + 4 \<le> path_weight (path_parts ?nk)"
    by simp
  have rootk: "path_root ?nk = path_root (b @ ''_'')"
    using path_root_middle [of "CHR ''_''" b "fmt_03d (int k) @ e"] by simp
  have r0: "length (path_root ?n0) \<le> 2" and rf: "length (path_root f) \<le> 2"
    by (rule length_path_root)+
  have c0: "candidate_at f b e 0 = path_join f ?n0"
    by (simp add: candidate_at_def)
  have ck: "candidate_at f b e k = path_join f ?nk"
    using assms by (simp add: candidate_at_def)
  show ?thesis
  proof (cases "path_root (b @ ''_'') \<noteq> []")
    case True
    then have abs0: "path_root ?n0 \<noteq> []" by (rule path_root_rooted)
    from True have "1 \<le> length (path_root (b @ ''_''))"
      by (cases "path_root (b @ ''_'')") simp_all
    with True abs0 gap r0 nek show ?thesis
      by (auto simp add: c0 ck path_join_def rootk length_render_path)
  next
    case False
    show ?thesis
    proof (cases "path_root ?n0 \<noteq> []")
      case True
      with False gap r0 nek show ?thesis
        by (auto simp add: c0 ck path_join_def rootk length_render_path path_weight_append)
    next
      case rel: False
      with False gap nek show ?thesis
        by (auto simp add: c0 ck path_join_def rootk length_render_path path_weight_append
            path_weight_zero)
    qed
  qed
qed

lemma candidate_at_inj:
  assumes "candidate_at f b e j = candidate_at f b e k"
  shows "j = k"
proof (cases "j = 0"; cases "k = 0")
  assume "j = 0" "k \<noteq> 0"
  with assms candidate_longer [of k f b e] show ?thesis by simp
next
  assume "j \<noteq> 0" "k = 0"
  with assms candidate_longer [of j f b e] show ?thesis by simp
next
  assume "j \<noteq> 0" "k \<noteq> 0"
  with assms show ?thesis by (intro candidate_at_inj_pos) simp_all
qed simp
section \<open>The candidates of the path allocator\<close>

lemma candidate_free_exists:
  assumes "finite fs"
  shows "\<exists>k. candidate_at f b e k \<notin> fs"
proof (rule ccontr)
  assume "\<not> (\<exists>k. candidate_at f b e k \<notin> fs)"
  then have "range (candidate_at f b e) \<subseteq> fs" by auto
  with assms have "finite (range (candidate_at f b e))" by (rule rev_finite_subset)
  moreover have "inj (candidate_at f b e)"
    by (rule injI) (rule candidate_at_inj)
  ultimately have "finite (UNIV :: nat set)" by (rule finite_imageD)
  then show False by simp
qed

lemma taken_prefix_card:
  assumes "finite fs" and "\<And>j. j < k \<Longrightarrow> candidate_at f b e j \<in> fs"
  shows "k \<le> card fs"
proof -
  have "inj_on (candidate_at f b e) {..<k}"
    by (rule inj_onI) (rule candidate_at_inj)
  then have "card (candidate_at f b e ` {..<k}) = k"
    by (simp add: card_image)
  moreover have "candidate_at f b e ` {..<k} \<subseteq> fs"
    using assms(2) by auto
  ultimately show ?thesis
    using card_mono [OF assms(1)] by metis
qed

lemma unique_loop_stops:
  assumes "stops_at err fs (candidate_at f b e k)" and "0 < i" and "i \<le> k"
    and "\<And>j. i \<le> j \<Longrightarrow> j < k \<Longrightarrow> \<not> stops_at err fs (candidate_at f b e j)"
  shows "unique_loop err fs f b e i = Some (probe_result err (candidate_at f b e k))"
  using assms
proof (induction "k - i" arbitrary: i)
  case 0
  then have "i = k" by simp
  with "0.prems" show ?case
    by (subst unique_loop.simps)
      (auto simp add: candidate_at_def stops_at_def probe_result_def path_exists_def
        split: option.splits)
next
  case (Suc d)
  then have "i < k" by simp
  with Suc.prems have taken: "\<not> stops_at err fs (candidate_at f b e i)" by simp
  have "unique_loop err fs f b e (i + 1) = Some (probe_result err (candidate_at f b e k))"
  proof (rule Suc.hyps(1))
    show "d = k - (i + 1)" using Suc.hyps(2) by simp
    show "stops_at err fs (candidate_at f b e k)" by (rule Suc.prems(1))
    show "0 < i + 1" by simp
    show "i + 1 \<le> k" using \<open>i < k\<close> by simp
    show "\<not> stops_at err fs (candidate_at f b e j)" if "i + 1 \<le> j" "j < k" for j
      using that Suc.prems(4) [of j] by simp
  qed
  with taken Suc.prems(2) show ?case
    by (subst unique_loop.simps)
      (auto simp add: candidate_at_def stops_at_def path_exists_def split: option.splits)
qed

lemma unique_path_stops:
  assumes "stops_at err fs (candidate_at f b e k)"
    and "\<And>j. j < k \<Longrightarrow> \<not> stops_at err fs (candidate_at f b e j)"
  shows "unique_path err fs f b e = Some (probe_result err (candidate_at f b e k))"
proof (cases "k = 0")
  case True
  with assms(1) show ?thesis
    by (auto simp add: unique_path_def candidate_at_def stops_at_def probe_result_def
        path_exists_def split: option.splits)
next
  case False
  then have "\<not> stops_at err fs (candidate_at f b e 0)" using assms(2) by simp
  moreover have "unique_loop err fs f b e 1 = Some (probe_result err (candidate_at f b e k))"
    using assms False by (intro unique_loop_stops) simp_all
  ultimately show ?thesis
    by (auto simp add: unique_path_def candidate_at_def stops_at_def path_exists_def
        split: option.splits)
qed

lemma first_stop:
  assumes "finite fs"
  shows "\<exists>k. stops_at err fs (candidate_at f b e k)
           \<and> (\<forall>j<k. \<not> stops_at err fs (candidate_at f b e j)) \<and> k \<le> card fs"
proof -
  define k where "k = (LEAST k. stops_at err fs (candidate_at f b e k))"
  from candidate_free_exists [OF assms] obtain k0 where "candidate_at f b e k0 \<notin> fs" ..
  then have "stops_at err fs (candidate_at f b e k0)" by (simp add: stops_at_def)
  then have stop: "stops_at err fs (candidate_at f b e k)"
    unfolding k_def by (rule LeastI)
  have before: "\<not> stops_at err fs (candidate_at f b e j)" if "j < k" for j
    using that not_less_Least unfolding k_def by blast
  then have "candidate_at f b e j \<in> fs" if "j < k" for j
    using that by (auto simp add: stops_at_def)
  from taken_prefix_card [OF assms this] have "k \<le> card fs" by simp
  with stop before show ?thesis by blast
qed

lemma unique_path_total:
  assumes "finite fs"
  shows "\<exists>r. unique_path err fs f b e = Some r
           \<and> (\<forall>p. r = Inr p \<longrightarrow> p \<notin> fs)"
proof -
  from first_stop [OF assms, of err f b e] obtain k where
    k: "stops_at err fs (candidate_at f b e k)"
      "\<forall>j<k. \<not> stops_at err fs (candidate_at f b e j)" by blast
  then have "unique_path err fs f b e = Some (probe_result err (candidate_at f b e k))"
    by (intro unique_path_stops) simp_all
  moreover have "\<forall>p. probe_result err (candidate_at f b e k) = Inr p \<longrightarrow> p \<notin> fs"
    using k(1) by (auto simp add: probe_result_def stops_at_def split: option.splits)
  ultimately show ?thesis by simp
qed

section \<open>Properties of the path allocator\<close>

text \<open>
  C6 (as amended). Let finitely many paths exist and let the existence test raise for
  none of the candidates the calls can reach (the first \<open>card fs + 2\<close> of them). Then
  \<^verbatim>\<open>unique_path\<close> returns the first candidate, in the order \<^verbatim>\<open><base><ext>\<close>,
  \<^verbatim>\<open><base>_001<ext>\<close>, \<^verbatim>\<open><base>_002<ext>\<close>, ..., that does not exist: the returned path is
  not on disk and every earlier candidate is. The function only reads the file system,
  so a second call on the same file system returns the same path. Once the returned path
  has been created, the next call returns the next candidate in that order that does not
  exist, a later one than the first; it is the candidate with suffix \<^verbatim>\<open>_001\<close> when the
  first call returned \<^verbatim>\<open><base><ext>\<close> and \<^verbatim>\<open><base>_001<ext>\<close> does not exist.
\<close>

theorem unique_path_first_unused:
  assumes "finite fs"
    and "\<And>j. j \<le> card fs + 1 \<Longrightarrow> err (candidate_at f b e j) = None"
  shows "\<exists>k. unique_path err fs f b e = Some (Inr (candidate_at f b e k))
           \<and> candidate_at f b e k \<notin> fs
           \<and> (\<forall>j<k. candidate_at f b e j \<in> fs)
           \<and> (\<exists>k'. unique_path err (insert (candidate_at f b e k) fs) f b e
                      = Some (Inr (candidate_at f b e k'))
                 \<and> k < k'
                 \<and> candidate_at f b e k' \<notin> insert (candidate_at f b e k) fs
                 \<and> (\<forall>j<k'. candidate_at f b e j \<in> insert (candidate_at f b e k) fs)
                 \<and> (k = 0 \<and> candidate_at f b e 1 \<notin> fs \<longrightarrow> k' = 1))"
proof -
  from first_stop [OF assms(1), of err f b e] obtain k where
    k: "stops_at err fs (candidate_at f b e k)"
       "\<forall>j<k. \<not> stops_at err fs (candidate_at f b e j)" "k \<le> card fs" by blast
  let ?fs' = "insert (candidate_at f b e k) fs"
  have fin': "finite ?fs'" using assms(1) by simp
  have card': "card ?fs' \<le> card fs + 1"
    using assms(1) by (simp add: card_insert_if)
  from first_stop [OF fin', of err f b e] obtain k' where
    k': "stops_at err ?fs' (candidate_at f b e k')"
        "\<forall>j<k'. \<not> stops_at err ?fs' (candidate_at f b e j)" "k' \<le> card ?fs'" by blast
  have quiet: "err (candidate_at f b e k) = None" "err (candidate_at f b e k') = None"
    using assms(2) [of k] assms(2) [of k'] k(3) k'(3) card' by simp_all
  have free: "candidate_at f b e k \<notin> fs"
    using k(1) quiet(1) by (simp add: stops_at_def)
  have free': "candidate_at f b e k' \<notin> ?fs'"
    using k'(1) quiet(2) by (simp add: stops_at_def)
  have taken: "candidate_at f b e j \<in> fs" if "j < k" for j
    using that k(2) by (auto simp add: stops_at_def)
  have taken': "candidate_at f b e j \<in> ?fs'" if "j < k'" for j
    using that k'(2) by (auto simp add: stops_at_def)
  have first: "unique_path err fs f b e = Some (Inr (candidate_at f b e k))"
    using unique_path_stops [of err fs f b e k] k(1,2) quiet(1)
    by (simp add: probe_result_def)
  have second: "unique_path err ?fs' f b e = Some (Inr (candidate_at f b e k'))"
    using unique_path_stops [of err ?fs' f b e k'] k'(1,2) quiet(2)
    by (simp add: probe_result_def)
  have "k' \<noteq> k" using free' by auto
  moreover have "\<not> k' < k" using taken free' by auto
  ultimately have later: "k < k'" by simp
  have one: "k' = 1" if "k = 0" "candidate_at f b e 1 \<notin> fs"
  proof (rule ccontr)
    assume "k' \<noteq> 1"
    with later that(1) have "1 < k'" by simp
    with taken' have "candidate_at f b e 1 \<in> ?fs'" by blast
    with that(2) have "candidate_at f b e 1 = candidate_at f b e k" by simp
    then have "1 = k" by (rule candidate_at_inj)
    with that(1) show False by simp
  qed
  from first free taken second later free' taken' one show ?thesis by blast
qed

text \<open>
  The theorem at the folder \<^verbatim>\<open>.\<close> holding \<^verbatim>\<open>img.jpg\<close>: the allocator answers
  \<^verbatim>\<open>img_001.jpg\<close>.
\<close>

theorem unique_path_first_unused_witness:
  "finite {''img.jpg''}
   \<and> exists_error demo_world (candidate_at ''.'' ''img'' ''.jpg'' 0) = None
   \<and> exists_error demo_world (candidate_at ''.'' ''img'' ''.jpg'' 1) = None
   \<and> exists_error demo_world (candidate_at ''.'' ''img'' ''.jpg'' 2) = None
   \<and> (\<exists>k. unique_path (exists_error demo_world) {''img.jpg''} ''.'' ''img'' ''.jpg''
            = Some (Inr (candidate_at ''.'' ''img'' ''.jpg'' k))
          \<and> candidate_at ''.'' ''img'' ''.jpg'' k \<notin> {''img.jpg''})
   \<and> unique_path (exists_error demo_world) {''img.jpg''} ''.'' ''img'' ''.jpg''
       = Some (Inr ''img_001.jpg'')"
proof -
  have fin: "finite {''img.jpg''}" by simp
  have q0: "exists_error demo_world (candidate_at ''.'' ''img'' ''.jpg'' 0) = None"
    and q1: "exists_error demo_world (candidate_at ''.'' ''img'' ''.jpg'' 1) = None"
    and q2: "exists_error demo_world (candidate_at ''.'' ''img'' ''.jpg'' 2) = None"
    by code_simp+
  have quiet: "exists_error demo_world (candidate_at ''.'' ''img'' ''.jpg'' j) = None"
    if "j \<le> card {''img.jpg''} + 1" for j
  proof -
    from that have "j = 0 \<or> j = 1 \<or> j = 2" by auto
    with q0 q1 q2 show ?thesis by auto
  qed
  have run: "unique_path (exists_error demo_world) {''img.jpg''} ''.'' ''img'' ''.jpg''
       = Some (Inr ''img_001.jpg'')"
    by code_simp
  from unique_path_first_unused [where fs = "{''img.jpg''}" and err = "exists_error demo_world"
      and f = "''.''" and b = "''img''" and e = "''.jpg''", OF fin quiet]
  have "\<exists>k. unique_path (exists_error demo_world) {''img.jpg''} ''.'' ''img'' ''.jpg''
            = Some (Inr (candidate_at ''.'' ''img'' ''.jpg'' k))
          \<and> candidate_at ''.'' ''img'' ''.jpg'' k \<notin> {''img.jpg''}"
    by blast
  with fin q0 q1 q2 run show ?thesis by blast
qed

text \<open>
  The specification as worded promises the suffix \<^verbatim>\<open>_001\<close> for every directory state. In a
  folder that already holds \<^verbatim>\<open>img_001.jpg\<close> but not \<^verbatim>\<open>img.jpg\<close>, the first call returns
  \<^verbatim>\<open>img.jpg\<close>, and after that file is created the second call returns \<^verbatim>\<open>img_002.jpg\<close>.
\<close>

theorem unique_path_second_call_counterexample:
  "unique_path (exists_error demo_world) {''out/img_001.jpg''} ''out'' ''img'' ''.jpg''
     = Some (Inr ''out/img.jpg'')
   \<and> unique_path (exists_error demo_world) (insert ''out/img.jpg'' {''out/img_001.jpg''})
       ''out'' ''img'' ''.jpg''
       = Some (Inr ''out/img_002.jpg'')
   \<and> candidate_at ''out'' ''img'' ''.jpg'' 1 = ''out/img_001.jpg''
   \<and> ''out/img_002.jpg'' \<noteq> ''out/img_001.jpg''"
  by code_simp

text \<open>
  C7 (as amended). The path allocator terminates for every input: when finitely many
  paths exist, it stops at a candidate whose number is at most the number of existing
  paths, every candidate before it being taken and tested without an exception. There it
  either returns the candidate, which is unused, or the existence test of the candidate
  raises and the exception leaves the function.
\<close>

theorem unique_path_terminates:
  assumes "finite fs"
  shows "\<exists>k\<le>card fs.
           (\<forall>j<k. err (candidate_at f b e j) = None \<and> candidate_at f b e j \<in> fs)
           \<and> (case err (candidate_at f b e k) of
                 Some x \<Rightarrow> unique_path err fs f b e = Some (Inl x)
               | None \<Rightarrow> unique_path err fs f b e = Some (Inr (candidate_at f b e k))
                           \<and> candidate_at f b e k \<notin> fs)"
proof -
  from first_stop [OF assms, of err f b e] obtain k where
    k: "stops_at err fs (candidate_at f b e k)"
       "\<forall>j<k. \<not> stops_at err fs (candidate_at f b e j)" "k \<le> card fs" by blast
  then have run: "unique_path err fs f b e = Some (probe_result err (candidate_at f b e k))"
    by (intro unique_path_stops) simp_all
  have before: "\<forall>j<k. err (candidate_at f b e j) = None \<and> candidate_at f b e j \<in> fs"
    using k(2) by (auto simp add: stops_at_def)
  have "case err (candidate_at f b e k) of
          Some x \<Rightarrow> unique_path err fs f b e = Some (Inl x)
        | None \<Rightarrow> unique_path err fs f b e = Some (Inr (candidate_at f b e k))
                    \<and> candidate_at f b e k \<notin> fs"
    using k(1) run by (auto simp add: probe_result_def stops_at_def split: option.splits)
  with before k(3) show ?thesis by blast
qed

text \<open>The theorem at a folder holding \<^verbatim>\<open>img.jpg\<close> and \<^verbatim>\<open>img_001.jpg\<close>.\<close>

theorem unique_path_terminates_witness:
  "finite {''out/img.jpg'', ''out/img_001.jpg''}
   \<and> (\<exists>k\<le>card {''out/img.jpg'', ''out/img_001.jpg''}.
         case exists_error demo_world (candidate_at ''out'' ''img'' ''.jpg'' k) of
           Some x \<Rightarrow> unique_path (exists_error demo_world) {''out/img.jpg'', ''out/img_001.jpg''}
                       ''out'' ''img'' ''.jpg'' = Some (Inl x)
         | None \<Rightarrow> unique_path (exists_error demo_world) {''out/img.jpg'', ''out/img_001.jpg''}
                     ''out'' ''img'' ''.jpg'' = Some (Inr (candidate_at ''out'' ''img'' ''.jpg'' k))
                   \<and> candidate_at ''out'' ''img'' ''.jpg'' k
                       \<notin> {''out/img.jpg'', ''out/img_001.jpg''})
   \<and> unique_path (exists_error demo_world) {''out/img.jpg'', ''out/img_001.jpg''}
        ''out'' ''img'' ''.jpg'' = Some (Inr ''out/img_002.jpg'')"
proof -
  have fin: "finite {''out/img.jpg'', ''out/img_001.jpg''}" by simp
  have run: "unique_path (exists_error demo_world) {''out/img.jpg'', ''out/img_001.jpg''}
        ''out'' ''img'' ''.jpg'' = Some (Inr ''out/img_002.jpg'')"
    by code_simp
  from unique_path_terminates [OF fin, of "exists_error demo_world" "''out''" "''img''" "''.jpg''"]
  have "\<exists>k\<le>card {''out/img.jpg'', ''out/img_001.jpg''}.
         case exists_error demo_world (candidate_at ''out'' ''img'' ''.jpg'' k) of
           Some x \<Rightarrow> unique_path (exists_error demo_world) {''out/img.jpg'', ''out/img_001.jpg''}
                       ''out'' ''img'' ''.jpg'' = Some (Inl x)
         | None \<Rightarrow> unique_path (exists_error demo_world) {''out/img.jpg'', ''out/img_001.jpg''}
                     ''out'' ''img'' ''.jpg'' = Some (Inr (candidate_at ''out'' ''img'' ''.jpg'' k))
                   \<and> candidate_at ''out'' ''img'' ''.jpg'' k
                       \<notin> {''out/img.jpg'', ''out/img_001.jpg''}"
    by blast
  with fin run show ?thesis by blast
qed

text \<open>
  The specification as worded has the allocator return an unused name for every input.
  For a base name of 300 characters the existence test of the first candidate raises
  (file name too long), and no name is returned.
\<close>

theorem unique_path_long_name_counterexample:
  "unique_path (exists_error demo_world) {} ''out'' (replicate 300 (CHR ''a'')) ''.jpg''
     = Some (Inl (Exception ''[Errno 36] File name too long''))"
  by code_simp

section \<open>Output extension\<close>

text \<open>
  C8 (as amended). The extension is computed from the upper-case form of the configured
  format name: if that form is \<^verbatim>\<open>JPEG\<close> the extension is \<^verbatim>\<open>.jpg\<close>, otherwise it is a dot
  followed by the lower-case form of the upper-cased name. So \<^verbatim>\<open>JPEG\<close> gives \<^verbatim>\<open>.jpg\<close> and
  \<^verbatim>\<open>PNG\<close> gives \<^verbatim>\<open>.png\<close>.
\<close>

theorem output_ext_mapping:
  "output_ext w f
     = (if str_upper w f = ''JPEG'' then ''.jpg'' else ''.'' @ str_lower w (str_upper w f))
   \<and> output_ext demo_world ''JPEG'' = ''.jpg''
   \<and> output_ext demo_world ''PNG'' = ''.png''
   \<and> output_ext demo_world ''webp'' = ''.webp''"
proof -
  have "output_ext w f
     = (if str_upper w f = ''JPEG'' then ''.jpg'' else ''.'' @ str_lower w (str_upper w f))"
    by (simp add: output_ext_def Let_def)
  moreover have "output_ext demo_world ''JPEG'' = ''.jpg''" by code_simp
  moreover have "output_ext demo_world ''PNG'' = ''.png''" by code_simp
  moreover have "output_ext demo_world ''webp'' = ''.webp''" by code_simp
  ultimately show ?thesis by simp
qed

text \<open>
  The specification as worded maps every format name other than \<^verbatim>\<open>JPEG\<close> to a dot and
  its lower-case form. The name \<^verbatim>\<open>jpeg\<close> is mapped to \<^verbatim>\<open>.jpg\<close>, not \<^verbatim>\<open>.jpeg\<close>; and a name
  holding a sharp s is mapped to \<^verbatim>\<open>.ss\<close>, while its lower-case form is the sharp s itself.
\<close>

theorem output_ext_lowercase_counterexample:
  "''jpeg'' \<noteq> ''JPEG''
   \<and> output_ext demo_world ''jpeg'' = ''.jpg''
   \<and> ''.'' @ str_lower demo_world ''jpeg'' = ''.jpeg''
   \<and> output_ext demo_world sharp_s = ''.ss''
   \<and> ''.'' @ str_lower demo_world sharp_s = ''.'' @ sharp_s
   \<and> ''.'' @ sharp_s \<noteq> ''.ss''"
  by code_simp

section \<open>Colour-mode normalisation\<close>

lemma ensure_rgb_converts:
  "ensure_rgb img
     = (if mode img = ''RGBA'' \<or> mode img = ''LA'' \<or> mode img = ''P'' \<or> mode img = ''CMYK''
        then img\<lparr>mode := ''RGB''\<rparr> else img)"
  by (simp add: ensure_rgb_def convert_def)

text \<open>
  C9. The specification has every mode with alpha and every palette mode converted to
  RGB. \<^verbatim>\<open>ensure_rgb\<close> converts the modes \<^verbatim>\<open>RGBA\<close>, \<^verbatim>\<open>LA\<close>, \<^verbatim>\<open>P\<close> and \<^verbatim>\<open>CMYK\<close> only: an image of
  mode \<^verbatim>\<open>PA\<close> (palette with alpha) is returned as it is, and so are the premultiplied
  alpha modes \<^verbatim>\<open>RGBa\<close> and \<^verbatim>\<open>La\<close>. In the batch, with the output format JPEG, the writer
  then refuses the image: the file is reported as an error and nothing is written for it.
\<close>

theorem ensure_rgb_keeps_palette_alpha:
  "mode_has_alpha ''PA'' \<and> mode_is_palette ''PA''
   \<and> ensure_rgb \<lparr>mode = ''PA'', info_exif = None, info_icc_profile = None\<rparr>
       = \<lparr>mode = ''PA'', info_exif = None, info_icc_profile = None\<rparr>
   \<and> mode_has_alpha ''RGBa''
   \<and> mode (ensure_rgb \<lparr>mode = ''RGBa'', info_exif = None, info_icc_profile = None\<rparr>) = ''RGBa''
   \<and> mode_has_alpha ''La''
   \<and> mode (ensure_rgb \<lparr>mode = ''La'', info_exif = None, info_icc_profile = None\<rparr>) = ''La''
   \<and> map_option (\<lambda>r. (out_result r, out_stdout r, out_disk r))
        (process_images demo_world demo_config (Some [''in/d.png'']) None {} ())
       = Some (Inr 1, [''[ERREUR] in/d.png: cannot write mode PA as JPEG''], {''out''})"
  by code_simp

section \<open>Properties of the timestamp resolver\<close>

lemma scan_exif_filter:
  "scan_exif w exif =
     (case filter (is_date_entry w) exif of
        (k, Str v) # rest \<Rightarrow>
          (case fromisoformat w (replace_char (CHR '':'') (CHR ''-'') 2 v) of
             Inl e \<Rightarrow> Inl e
           | Inr dt \<Rightarrow> Inr (Some dt))
      | _ \<Rightarrow> Inr None)"
  by (induction w exif rule: scan_exif.induct) simp_all

lemma exif_datetime_returns: "\<exists>dt. exif_datetime w img src = Inr dt"
  by (simp add: exif_datetime_def split: sum.splits option.splits)

text \<open>
  C5. The specification has the resolver use the embedded DateTimeOriginal field whenever
  it is present and parses. \<^verbatim>\<open>exif_datetime\<close> reads the entries of \<^verbatim>\<open>img.getexif()\<close> only,
  the first image directory; a camera stores DateTimeOriginal in the Exif directory,
  which that listing does not include. For the camera file of the small world, whose
  embedded date is 24 December 2023, the resolver returns the file's last-modified time,
  17 May 2024.
\<close>

theorem exif_datetime_misses_exif_directory:
  "Image_open demo_world ''in/a.jpg'' = Inr camera_image
   \<and> embedded_date demo_world camera_image = Some dec24
   \<and> exif_datetime demo_world camera_image ''in/a.jpg'' = Inr may17
   \<and> may17 \<noteq> dec24"
  by code_simp

section \<open>Properties of the name builder\<close>

lemma build_base_name_eq:
  "build_base_name w config src parent cs dt =
     (let k = strftime_Ymd dt;
          n = (case cs k of None \<Rightarrow> 0 | Some v \<Rightarrow> v) + 1;
          ctx = \<lparr>ctx_folder = parent, ctx_date = k, ctx_counter = n, ctx_orig = path_stem w src\<rparr>
      in (case str_format w (rename_pattern config) ctx of
            Inl e \<Rightarrow> Inr (parent @ ''_'' @ k @ ''_'' @ fmt_03d n)
          | Inr base \<Rightarrow> if base = [] then Inr (parent @ ''_'' @ k @ ''_'' @ fmt_03d n) else Inr base,
          cs(k \<mapsto> n)))"
  by (cases "cs (strftime_Ymd dt)")
    (simp_all add: build_base_name_def setdefault_def Let_def split: sum.splits)

lemma build_base_name_counters:
  "snd (build_base_name w config src parent cs dt) =
     cs(strftime_Ymd dt \<mapsto> (case cs (strftime_Ymd dt) of None \<Rightarrow> 0 | Some v \<Rightarrow> v) + 1)"
  by (simp add: build_base_name_eq Let_def)

text \<open>
  C4. \<^verbatim>\<open>_build_base_name\<close> is a function of its inputs and of what \<^verbatim>\<open>str.format\<close> does
  with the pattern. Whatever that is, the call does not raise: it returns a non-empty
  name and leaves the day's counter incremented by one (starting from 0 when the day
  is new). If rendering raises or yields the empty string, the name is
  \<^verbatim>\<open><folder>_<YYYYMMDD>_<counter:03d>\<close>; otherwise it is the rendered name.
\<close>

theorem build_base_name_never_raises:
  "let k = strftime_Ymd dt;
       n = (case cs k of None \<Rightarrow> 0 | Some v \<Rightarrow> v) + 1;
       ctx = \<lparr>ctx_folder = parent, ctx_date = k, ctx_counter = n, ctx_orig = path_stem w src\<rparr>;
       fallback = parent @ ''_'' @ k @ ''_'' @ fmt_03d n;
       rendered = str_format w (rename_pattern config) ctx
   in (\<exists>base. build_base_name w config src parent cs dt = (Inr base, cs(k \<mapsto> n)) \<and> base \<noteq> [])
      \<and> ((\<exists>e. rendered = Inl e) \<or> rendered = Inr []
            \<longrightarrow> fst (build_base_name w config src parent cs dt) = Inr fallback)
      \<and> (\<forall>base. rendered = Inr base \<and> base \<noteq> []
            \<longrightarrow> fst (build_base_name w config src parent cs dt) = Inr base)"
  unfolding Let_def build_base_name_eq [unfolded Let_def]
  by (auto split: sum.splits)

text \<open>The theorem at a pattern with the undefined placeholder \<^verbatim>\<open>{nope}\<close>.\<close>

theorem build_base_name_never_raises_witness:
  "str_format demo_world ''{nope}''
      \<lparr>ctx_folder = ''in'', ctx_date = ''20240517'', ctx_counter = 1, ctx_orig = ''a''\<rparr>
     = Inl (Exception ''KeyError'')
   \<and> fst (build_base_name demo_world (demo_config\<lparr>rename_pattern := ''{nope}''\<rparr>)
            ''in/a.jpg'' ''in'' Map.empty may17) = Inr ''in_20240517_001''"
proof -
  have k: "strftime_Ymd may17 = ''20240517''" by code_simp
  have n: "fmt_03d 1 = ''001''" by code_simp
  have stem: "path_stem demo_world ''in/a.jpg'' = ''a''" by (simp add: demo_world_def)
  have fails: "str_format demo_world ''{nope}''
      \<lparr>ctx_folder = ''in'', ctx_date = ''20240517'', ctx_counter = 1, ctx_orig = ''a''\<rparr>
     = Inl (Exception ''KeyError'')"
    by (simp add: demo_world_def)
  from build_base_name_never_raises [of may17 Map.empty "''in''" demo_world "''in/a.jpg''"
      "demo_config\<lparr>rename_pattern := ''{nope}''\<rparr>"]
  show ?thesis
    using fails k n stem by (simp add: Let_def)
qed

section \<open>One iteration of the batch loop\<close>

text \<open>
  With finitely many existing paths the body of an iteration ends, in a state with
  finitely many paths again. The counters it leaves are those of the name builder if the
  file reached it, and the ones it found otherwise.
\<close>

lemma pipeline_body_total:
  assumes "finite fs"
  shows "\<exists>r im cs' fs'. pipeline_body w config parent fmt ext src im0 cs fs = Some (r, im, cs', fs')
           \<and> finite fs'"
proof -
  from unique_path_total [OF assms] have
    alloc: "\<exists>r. unique_path (exists_error w) fs (dest_dir config) b ext = Some r" for b by blast
  show ?thesis
  proof (cases "exif_transpose w im0")
    case (Inl e)
    with assms show ?thesis by (simp add: pipeline_body_def)
  next
    case im1: (Inr im1)
    show ?thesis
    proof (cases "exif_datetime w im1 src")
      case (Inl e)
      with im1 assms show ?thesis by (simp add: pipeline_body_def)
    next
      case dt: (Inr dt)
      obtain r cs' where nm: "build_base_name w config src parent cs dt = (r, cs')"
        by (cases "build_base_name w config src parent cs dt")
      show ?thesis
      proof (cases r)
        case (Inl e)
        with im1 dt nm assms show ?thesis by (simp add: pipeline_body_def)
      next
        case base: (Inr base)
        show ?thesis
        proof (cases "thumbnail w (ensure_rgb im1) (max_width config, max_height config)")
          case (Inl e)
          with im1 dt nm base assms show ?thesis by (simp add: pipeline_body_def Let_def)
        next
          case im3: (Inr im3)
          from alloc [of base] obtain a where
            a: "unique_path (exists_error w) fs (dest_dir config) base ext = Some a" ..
          show ?thesis
          proof (cases a)
            case (Inl e)
            with im1 dt nm base im3 a assms show ?thesis
              by (simp add: pipeline_body_def Let_def)
          next
            case p: (Inr p)
            show ?thesis
            proof (cases "save w im3 p (make_save_kwargs config fmt im3)")
              case (Inl e)
              with im1 dt nm base im3 a p assms show ?thesis
                by (simp add: pipeline_body_def Let_def)
            next
              case (Inr u)
              with im1 dt nm base im3 a p assms show ?thesis
                by (simp add: pipeline_body_def Let_def)
            qed
          qed
        qed
      qed
    qed
  qed
qed

lemma pipeline_body_counters:
  assumes "pipeline_body w config parent fmt ext src im0 cs fs = Some (r, im, cs', fs')"
  shows "cs' = (case exif_transpose w im0 of
                  Inl e \<Rightarrow> cs
                | Inr im1 \<Rightarrow>
                    (case exif_datetime w im1 src of
                       Inl e \<Rightarrow> cs
                     | Inr dt \<Rightarrow> snd (build_base_name w config src parent cs dt)))"
  using assms
  by (auto simp add: pipeline_body_def Let_def
      split: sum.splits prod.splits option.splits)

lemma run_file_total:
  assumes "finite fs"
  shows "\<exists>r cs' fs'. run_file w config parent fmt ext src cs fs = Some (r, cs', fs') \<and> finite fs'"
proof (cases "Image_open w src")
  case (Inl e)
  with assms show ?thesis by (simp add: run_file_def)
next
  case (Inr im0)
  from pipeline_body_total [OF assms, of w config parent fmt ext src im0 cs]
  obtain r im cs' fs' where
    "pipeline_body w config parent fmt ext src im0 cs fs = Some (r, im, cs', fs')" "finite fs'"
    by blast
  with Inr show ?thesis
    by (cases "close w im") (simp_all add: run_file_def)
qed

lemma run_file_counters:
  assumes "run_file w config parent fmt ext src cs fs = Some (r, cs', fs')"
  shows "cs' = (case naming_date w src of
                  None \<Rightarrow> cs
                | Some dt \<Rightarrow> snd (build_base_name w config src parent cs dt))"
proof (cases "Image_open w src")
  case (Inl e)
  with assms show ?thesis by (simp add: run_file_def naming_date_def)
next
  case (Inr im0)
  with assms obtain r0 im where
    body: "pipeline_body w config parent fmt ext src im0 cs fs = Some (r0, im, cs', fs')"
    by (auto simp add: run_file_def split: option.splits sum.splits)
  from pipeline_body_counters [OF body] Inr show ?thesis
    by (simp add: naming_date_def split: sum.splits)
qed

lemma report_progress_keeps:
  "st_counters (snd (report_progress n cb s)) = st_counters s
   \<and> st_disk (snd (report_progress n cb s)) = st_disk s
   \<and> st_stdout (snd (report_progress n cb s)) = st_stdout s"
  by (simp add: report_progress_def Let_def split: option.splits sum.splits)

lemma report_progress_returning:
  "report_progress n (map_option returning g) s =
     (Inr (), s\<lparr>st_processed := st_processed s + 1,
               st_sink := (case g of None \<Rightarrow> st_sink s
                           | Some f \<Rightarrow> f (st_processed s + 1) n (st_sink s))\<rparr>)"
  by (cases g) (simp_all add: report_progress_def returning_def Let_def)

lemma process_file_total:
  assumes "finite (st_disk s)"
  shows "\<exists>r s'. process_file w config parent fmt ext n cb src s = Some (r, s')
           \<and> finite (st_disk s')"
proof -
  from run_file_total [OF assms, of w config parent fmt ext src "st_counters s"]
  obtain r cs' fs' where run:
    "run_file w config parent fmt ext src (st_counters s) (st_disk s) = Some (r, cs', fs')"
    "finite fs'" by blast
  let ?s1 = "s\<lparr>st_disk := fs', st_counters := cs'\<rparr>"
  have keep: "finite (st_disk (snd (report_progress n cb t)))" if "finite (st_disk t)" for t
    using that by (simp add: report_progress_keeps)
  show ?thesis
  proof (cases r)
    case (Inr u)
    with run keep [of ?s1] show ?thesis
      by (cases "report_progress n cb ?s1") (simp add: process_file_def)
  next
    case (Inl e)
    show ?thesis
    proof (cases "print_line w (error_line src e)")
      case failed: (Inl e')
      with Inl run show ?thesis by (simp add: process_file_def)
    next
      case printed: (Inr u)
      let ?s2 = "?s1\<lparr>st_stdout := st_stdout ?s1 @ [error_line src e]\<rparr>"
      from Inl printed run keep [of ?s2] show ?thesis
        by (cases "report_progress n cb ?s2") (simp add: process_file_def)
    qed
  qed
qed

lemma process_file_counters:
  assumes "process_file w config parent fmt ext n cb src s = Some (r, s')"
  shows "st_counters s' = (case naming_date w src of
                             None \<Rightarrow> st_counters s
                           | Some dt \<Rightarrow> snd (build_base_name w config src parent (st_counters s) dt))"
proof -
  from assms obtain r0 cs' fs' where run:
    "run_file w config parent fmt ext src (st_counters s) (st_disk s) = Some (r0, cs', fs')"
    by (auto simp add: process_file_def split: option.splits)
  have "st_counters s' = cs'"
  proof (cases r0)
    case (Inr u)
    with assms run have "s' = snd (report_progress n cb (s\<lparr>st_disk := fs', st_counters := cs'\<rparr>))"
      by (simp add: process_file_def)
    then show ?thesis by (simp add: report_progress_keeps)
  next
    case (Inl e)
    show ?thesis
    proof (cases "print_line w (error_line src e)")
      case failed: (Inl e')
      with Inl assms run show ?thesis by (auto simp add: process_file_def)
    next
      case printed: (Inr u)
      with Inl assms run have "s' = snd (report_progress n cb
          (s\<lparr>st_disk := fs', st_counters := cs', st_stdout := st_stdout s @ [error_line src e]\<rparr>))"
        by (simp add: process_file_def)
      then show ?thesis by (simp add: report_progress_keeps)
    qed
  qed
  with run_file_counters [OF run] show ?thesis by simp
qed

text \<open>
  An iteration whose error line, if any, can be printed and whose callback returns
  goes on to the next file: the count is up by one and the callback has been called
  once with it.
\<close>

lemma process_file_step:
  assumes "finite (st_disk s)" and "\<And>e. print_line w (error_line src e) = Inr ()"
  shows "\<exists>s'. process_file w config parent fmt ext n (map_option returning g) src s
               = Some (Inr (), s')
           \<and> finite (st_disk s')
           \<and> st_processed s' = st_processed s + 1
           \<and> st_sink s' = (case g of None \<Rightarrow> st_sink s
                            | Some f \<Rightarrow> f (st_processed s + 1) n (st_sink s))
           \<and> (\<exists>l. st_stdout s' = st_stdout s @ l)"
proof -
  from run_file_total [OF assms(1), of w config parent fmt ext src "st_counters s"]
  obtain r cs' fs' where
    "run_file w config parent fmt ext src (st_counters s) (st_disk s) = Some (r, cs', fs')"
    "finite fs'" by blast
  then show ?thesis
    by (cases r)
      (simp_all add: process_file_def report_progress_returning assms(2) Let_def
        cong: option.case_cong)
qed

section \<open>The batch loop\<close>

lemma process_loop_finite:
  assumes "process_loop w config parent fmt ext n cb lst s = Some (r, s')"
    and "finite (st_disk s)"
  shows "finite (st_disk s')"
  using assms
proof (induction lst arbitrary: s)
  case Nil
  then show ?case by simp
next
  case (Cons src rest)
  from process_file_total [OF Cons.prems(2), of w config parent fmt ext n cb src]
  obtain r1 s1 where s1: "process_file w config parent fmt ext n cb src s = Some (r1, s1)"
    "finite (st_disk s1)" by blast
  show ?case
  proof (cases r1)
    case (Inl e)
    with s1 Cons.prems(1) show ?thesis by simp
  next
    case (Inr u)
    with s1 Cons.prems(1) have "process_loop w config parent fmt ext n cb rest s1 = Some (r, s')"
      by simp
    from Cons.IH [OF this s1(2)] show ?thesis .
  qed
qed

lemma process_loop_run:
  assumes "finite (st_disk s)"
    and "\<And>src e. src \<in> set lst \<Longrightarrow> print_line w (error_line src e) = Inr ()"
  shows "\<exists>s'. process_loop w config parent fmt ext n (map_option returning g) lst s
               = Some (Inr (), s')
           \<and> finite (st_disk s')
           \<and> st_processed s' = st_processed s + length lst
           \<and> st_sink s' = (case g of None \<Rightarrow> st_sink s
                            | Some f \<Rightarrow> foldl (\<lambda>v i. f i n v) (st_sink s)
                                [st_processed s + 1 ..< st_processed s + length lst + 1])
           \<and> (\<exists>l. st_stdout s' = st_stdout s @ l)"
  using assms
proof (induction lst arbitrary: s)
  case Nil
  then show ?case by (simp split: option.splits)
next
  case (Cons src rest)
  let ?cb = "map_option returning g"
  have printable: "print_line w (error_line src e) = Inr ()" for e
    using Cons.prems(2) [of src e] by simp
  from process_file_step [OF Cons.prems(1) printable, of config parent fmt ext n g]
  obtain s1 l1 where s1: "process_file w config parent fmt ext n ?cb src s = Some (Inr (), s1)"
    "finite (st_disk s1)" "st_processed s1 = st_processed s + 1"
    "st_sink s1 = (case g of None \<Rightarrow> st_sink s
                   | Some f \<Rightarrow> f (st_processed s + 1) n (st_sink s))"
    "st_stdout s1 = st_stdout s @ l1" by blast
  have rest: "print_line w (error_line p e) = Inr ()" if "p \<in> set rest" for p e
    using that Cons.prems(2) [of p e] by simp
  from Cons.IH [OF s1(2) rest] obtain s' l2 where
    s': "process_loop w config parent fmt ext n ?cb rest s1 = Some (Inr (), s')"
    "finite (st_disk s')" "st_processed s' = st_processed s1 + length rest"
    "st_sink s' = (case g of None \<Rightarrow> st_sink s1
                   | Some f \<Rightarrow> foldl (\<lambda>v i. f i n v) (st_sink s1)
                       [st_processed s1 + 1 ..< st_processed s1 + length rest + 1])"
    "st_stdout s' = st_stdout s1 @ l2" by blast
  have run: "process_loop w config parent fmt ext n ?cb (src # rest) s = Some (Inr (), s')"
    using s1(1) s'(1) by simp
  have count: "st_processed s' = st_processed s + length (src # rest)"
    using s1(3) s'(3) by simp
  have out: "st_stdout s' = st_stdout s @ (l1 @ l2)"
    using s1(5) s'(5) by simp
  have sink: "st_sink s' = (case g of None \<Rightarrow> st_sink s
                   | Some f \<Rightarrow> foldl (\<lambda>v i. f i n v) (st_sink s)
                       [st_processed s + 1 ..< st_processed s + length (src # rest) + 1])"
  proof (cases g)
    case None
    with s1(4) s'(4) show ?thesis by simp
  next
    case (Some f)
    have "[st_processed s + 1 ..< st_processed s + length (src # rest) + 1]
            = (st_processed s + 1) # [Suc (st_processed s + 1) ..< st_processed s + length (src # rest) + 1]"
      by (rule upt_conv_Cons) simp
    moreover have "Suc (st_processed s + 1) = st_processed s1 + 1"
      using s1(3) by simp
    moreover have "st_processed s + length (src # rest) + 1 = st_processed s1 + length rest + 1"
      using s1(3) by simp
    ultimately have "[st_processed s + 1 ..< st_processed s + length (src # rest) + 1]
            = (st_processed s + 1) # [st_processed s1 + 1 ..< st_processed s1 + length rest + 1]"
      by (simp only:)
    with Some s1(4) s'(4) show ?thesis by (simp del: upt_Suc)
  qed
  from run s'(2) count sink out show ?case by blast
qed


section \<open>A file that cannot be opened\<close>




section \<open>Properties of \<^verbatim>\<open>process_images\<close>\<close>




text \<open>
  C2. The specification, like the comment in the handler, has every exception of a
  file's processing caught and logged, the batch going on with the next file. The
  handler's \<^verbatim>\<open>print\<close> stands in no \<^verbatim>\<open>try\<close>: when it raises, the batch is aborted. In a
  batch of three files whose second cannot be opened and has a name the standard output
  cannot encode, \<^verbatim>\<open>process_images\<close> raises \<^verbatim>\<open>UnicodeEncodeError\<close> after the first file:
  nothing is logged, the third file is never processed and no count is returned. With
  a standard output that takes every line the same batch returns 3.
\<close>

theorem unprintable_error_line_aborts_batch:
  "Image_open strict_world cafe_jpg = Inl (Exception ''cannot identify image file'')
   \<and> print_line strict_world (error_line cafe_jpg (Exception ''cannot identify image file''))
       = Inl (Exception ''UnicodeEncodeError'')
   \<and> map_option (\<lambda>out. (out_result out, out_stdout out, out_disk out, out_sink out))
        (process_images strict_world demo_config (Some [''in/a.jpg'', cafe_jpg, ''in/b.png''])
           (Some (returning record_call)) {} [])
       = Some (Inl (Exception ''UnicodeEncodeError''), [],
               {''out'', ''out/in_20240517_001.jpg''}, [(1, 3)])
   \<and> map_option (\<lambda>out. (out_result out, out_disk out, out_sink out))
        (process_images demo_world demo_config (Some [''in/a.jpg'', cafe_jpg, ''in/b.png''])
           (Some (returning record_call)) {} [])
       = Some (Inr 3, {''out'', ''out/in_20240517_001.jpg'', ''out/in_20240517_002.jpg''},
               [(1, 3), (2, 3), (3, 3)])"
  by code_simp

section \<open>Per-day counters\<close>

text \<open>Two valid dates have the same day key exactly when they are the same calendar day.\<close>

lemma length_decimal_two: "n < 100 \<Longrightarrow> length (decimal n) \<le> 2"
proof -
  assume "n < 100"
  then have "n div 10 < 10" by simp
  then have "length (decimal (n div 10)) = 1"
    by (simp add: decimal.simps [of "n div 10"])
  then show ?thesis
    by (simp add: decimal.simps [of n])
qed

lemma length_decimal_pos: "0 < length (decimal n)"
  by (simp add: decimal.simps [of n])

lemma length_zero_pad_two: "n < 100 \<Longrightarrow> length (zero_pad 2 (decimal n)) = 2"
  using length_decimal_two [of n] length_decimal_pos [of n]
  by (simp add: zero_pad_def)

lemma read_decimal_zero_pad: "read_decimal (zero_pad k (decimal n)) = n"
  by (simp add: zero_pad_def read_decimal_zeros read_decimal_decimal)

lemma zero_pad_inj: "zero_pad k (decimal m) = zero_pad k (decimal n) \<Longrightarrow> m = n"
  by (metis read_decimal_zero_pad)

lemma append3_eq:
  assumes "x @ y @ z = x' @ y' @ z'" and "length y = length y'" and "length z = length z'"
  shows "x = x' \<and> y = y' \<and> z = z'"
proof -
  from assms(2,3) have len: "length (y @ z) = length (y' @ z')" by simp
  from assms(1) len have "x = x' \<and> y @ z = y' @ z'"
    by (metis append_eq_append_conv)
  with assms(2) show ?thesis by simp
qed

lemma strftime_Ymd_inj:
  assumes "valid_date a" and "valid_date b" and "strftime_Ymd a = strftime_Ymd b"
  shows "same_day a b"
proof -
  from assms(1,2) have small: "month a < 100" "day a < 100" "month b < 100" "day b < 100"
    by (simp_all add: valid_date_def)
  have "zero_pad 4 (decimal (year a)) = zero_pad 4 (decimal (year b))
      \<and> zero_pad 2 (decimal (month a)) = zero_pad 2 (decimal (month b))
      \<and> zero_pad 2 (decimal (day a)) = zero_pad 2 (decimal (day b))"
  proof (rule append3_eq)
    show "zero_pad 4 (decimal (year a)) @ zero_pad 2 (decimal (month a)) @ zero_pad 2 (decimal (day a))
      = zero_pad 4 (decimal (year b)) @ zero_pad 2 (decimal (month b)) @ zero_pad 2 (decimal (day b))"
      using assms(3) by (simp add: strftime_Ymd_def)
    show "length (zero_pad 2 (decimal (month a))) = length (zero_pad 2 (decimal (month b)))"
      using small by (simp add: length_zero_pad_two)
    show "length (zero_pad 2 (decimal (day a))) = length (zero_pad 2 (decimal (day b)))"
      using small by (simp add: length_zero_pad_two)
  qed
  then show ?thesis
    by (auto simp add: same_day_def dest: zero_pad_inj)
qed

lemma same_day_strftime: "same_day a b \<Longrightarrow> strftime_Ymd a = strftime_Ymd b"
  by (simp add: same_day_def strftime_Ymd_def)

text \<open>
  One iteration moves the counter of a day up by one if the file reaches the name
  builder with a date of that day, and leaves it otherwise.
\<close>

lemma process_file_counter:
  assumes "process_file w config parent fmt ext n cb src s = Some (r, s1)"
    and "named_validly w src" and "valid_date d"
  shows "(case st_counters s1 (strftime_Ymd d) of None \<Rightarrow> 0 | Some v \<Rightarrow> v)
           = (case st_counters s (strftime_Ymd d) of None \<Rightarrow> 0 | Some v \<Rightarrow> v)
             + (if named_on w d src then 1 else 0)"
proof (cases "naming_date w src")
  case None
  with process_file_counters [OF assms(1)] show ?thesis
    by (simp add: named_on_def)
next
  case (Some dt)
  with assms(2) have valid: "valid_date dt" by (simp add: named_validly_def)
  from process_file_counters [OF assms(1)] Some
  have cs: "st_counters s1 = (st_counters s)(strftime_Ymd dt \<mapsto>
      (case st_counters s (strftime_Ymd dt) of None \<Rightarrow> 0 | Some v \<Rightarrow> v) + 1)"
    by (simp add: build_base_name_counters)
  show ?thesis
  proof (cases "same_day dt d")
    case True
    then have "strftime_Ymd dt = strftime_Ymd d" by (rule same_day_strftime)
    with True Some cs show ?thesis by (simp add: named_on_def)
  next
    case False
    then have "strftime_Ymd dt \<noteq> strftime_Ymd d"
      using strftime_Ymd_inj [OF valid assms(3)] by blast
    with False Some cs show ?thesis by (simp add: named_on_def)
  qed
qed

lemma process_file_dom:
  assumes "process_file w config parent fmt ext n cb src s = Some (r, s1)"
  shows "dom (st_counters s1)
           = dom (st_counters s) \<union> {strftime_Ymd d | d. naming_date w src = Some d}"
proof (cases "naming_date w src")
  case None
  with process_file_counters [OF assms] show ?thesis by simp
next
  case (Some dt)
  with process_file_counters [OF assms] show ?thesis
    by (auto simp add: build_base_name_counters)
qed

text \<open>
  The loop, run through a list without an exception leaving it: the counter of a day is
  up by the number of files of the list named on that day, and the new keys are the day
  keys of the files named.
\<close>

lemma process_loop_counter:
  assumes "process_loop w config parent fmt ext n cb lst s = Some (Inr (), s')"
    and "list_all (named_validly w) lst" and "valid_date d"
  shows "(case st_counters s' (strftime_Ymd d) of None \<Rightarrow> 0 | Some v \<Rightarrow> v)
           = (case st_counters s (strftime_Ymd d) of None \<Rightarrow> 0 | Some v \<Rightarrow> v)
             + int (length (filter (named_on w d) lst))"
  using assms(1,2)
proof (induction lst arbitrary: s)
  case Nil
  then show ?case by simp
next
  case (Cons src rest)
  from Cons.prems(1) obtain s1 where
    step: "process_file w config parent fmt ext n cb src s = Some (Inr (), s1)"
    and rest: "process_loop w config parent fmt ext n cb rest s1 = Some (Inr (), s')"
    by (auto split: option.splits sum.splits prod.splits)
  from Cons.prems(2) have valid: "named_validly w src" "list_all (named_validly w) rest"
    by simp_all
  from process_file_counter [OF step valid(1) assms(3)] Cons.IH [OF rest valid(2)]
  show ?case by simp
qed

lemma process_loop_dom:
  assumes "process_loop w config parent fmt ext n cb lst s = Some (Inr (), s')"
  shows "dom (st_counters s')
           = dom (st_counters s)
             \<union> {strftime_Ymd d | d p. p \<in> set lst \<and> naming_date w p = Some d}"
  using assms
proof (induction lst arbitrary: s)
  case Nil
  then show ?case by simp
next
  case (Cons src rest)
  from Cons.prems obtain s1 where
    step: "process_file w config parent fmt ext n cb src s = Some (Inr (), s1)"
    and rest: "process_loop w config parent fmt ext n cb rest s1 = Some (Inr (), s')"
    by (auto split: option.splits sum.splits prod.splits)
  from process_file_dom [OF step] Cons.IH [OF rest]
  show ?case by auto
qed

text \<open>
  C3. In one run of the batch loop, started with the empty counters dictionary, let the
  files before \<open>src\<close> have been processed and let \<open>src\<close> reach the name builder with the
  date \<open>dt\<close>, all dates being calendar dates. Then the name builder is called for \<open>src\<close>
  with the counters the loop holds, the key is the day key \<^verbatim>\<open>YYYYMMDD\<close> of \<open>dt\<close>, and
  the counter it stores under that key and hands to the pattern is one more than the
  number of earlier files of the run named on the same calendar day: the files of a day
  get 1, 2, 3, ... in processing order, whatever files of other days, and files that
  could not be opened, come in between. The keys of the dictionary are the day keys of
  the files named so far.
\<close>

theorem same_day_counters_count_up:
  assumes "finite fs"
    and "process_loop w config parent fmt ext n cb pre (loop_start fs u) = Some (Inr (), s1)"
    and "naming_date w src = Some dt"
    and "list_all (named_validly w) (pre @ [src])"
  shows "let k = strftime_Ymd dt;
             m = int (length (filter (named_on w dt) pre)) + 1;
             fallback = parent @ ''_'' @ k @ ''_'' @ fmt_03d m
         in \<exists>r s2 name.
              process_file w config parent fmt ext n cb src s1 = Some (r, s2)
              \<and> build_base_name w config src parent (st_counters s1) dt
                  = (Inr name, st_counters s2)
              \<and> st_counters s2 = (st_counters s1)(k \<mapsto> m)
              \<and> name = (case str_format w (rename_pattern config)
                                \<lparr>ctx_folder = parent, ctx_date = k, ctx_counter = m,
                                 ctx_orig = path_stem w src\<rparr> of
                          Inl e \<Rightarrow> fallback
                        | Inr base \<Rightarrow> if base = [] then fallback else base)
              \<and> dom (st_counters s1)
                  = {strftime_Ymd d | d p. p \<in> set pre \<and> naming_date w p = Some d}"
proof -
  define k where "k = strftime_Ymd dt"
  define m where "m = int (length (filter (named_on w dt) pre)) + 1"
  define fallback where "fallback = parent @ ''_'' @ k @ ''_'' @ fmt_03d m"
  from assms(3,4) have valid: "valid_date dt" and before: "list_all (named_validly w) pre"
    by (simp_all add: named_validly_def)
  have "finite (st_disk (loop_start fs u))" using assms(1) by (simp add: loop_start_def)
  from process_loop_finite [OF assms(2) this] have "finite (st_disk s1)" .
  from process_file_total [OF this, of w config parent fmt ext n cb src]
  obtain r s2 where step: "process_file w config parent fmt ext n cb src s1 = Some (r, s2)"
    by blast
  from process_loop_counter [OF assms(2) before valid]
  have count: "(case st_counters s1 k of None \<Rightarrow> 0 | Some v \<Rightarrow> v) + 1 = m"
    by (simp add: loop_start_def k_def m_def)
  from process_file_counters [OF step] assms(3)
  have "st_counters s2 = snd (build_base_name w config src parent (st_counters s1) dt)"
    by simp
  moreover have "build_base_name w config src parent (st_counters s1) dt
      = (Inr (case str_format w (rename_pattern config)
                     \<lparr>ctx_folder = parent, ctx_date = k, ctx_counter = m,
                      ctx_orig = path_stem w src\<rparr> of
                Inl e \<Rightarrow> fallback
              | Inr base \<Rightarrow> if base = [] then fallback else base),
         (st_counters s1)(k \<mapsto> m))"
    unfolding build_base_name_eq Let_def k_def [symmetric] count fallback_def
    by (simp split: sum.splits)
  moreover have "dom (st_counters s1)
      = {strftime_Ymd d | d p. p \<in> set pre \<and> naming_date w p = Some d}"
    using process_loop_dom [OF assms(2)] by (simp add: loop_start_def)
  ultimately show ?thesis
    unfolding Let_def k_def [symmetric] m_def [symmetric] fallback_def [symmetric]
    using step by simp
qed

text \<open>
  The theorem at a batch of four files of the small world: \<^verbatim>\<open>a.jpg\<close> is named on 17 May,
  \<^verbatim>\<open>c.jpg\<close> on 2 June, \<^verbatim>\<open>bad.jpg\<close> cannot be opened, and \<^verbatim>\<open>b.png\<close>, the second file of
  17 May, gets the counter 2.
\<close>

theorem same_day_counters_count_up_witness:
  "finite {''out''}
   \<and> naming_date demo_world ''in/b.png'' = Some may17
   \<and> list_all (named_validly demo_world) [''in/a.jpg'', ''in/c.jpg'', ''in/bad.jpg'', ''in/b.png'']
   \<and> length (filter (named_on demo_world may17) [''in/a.jpg'', ''in/c.jpg'', ''in/bad.jpg'']) = 1
   \<and> (\<exists>s1 r s2.
         process_loop demo_world demo_config ''in'' ''JPEG'' ''.jpg'' 4 None
           [''in/a.jpg'', ''in/c.jpg'', ''in/bad.jpg''] (loop_start {''out''} ())
           = Some (Inr (), s1)
         \<and> process_file demo_world demo_config ''in'' ''JPEG'' ''.jpg'' 4 None ''in/b.png'' s1
             = Some (r, s2)
         \<and> build_base_name demo_world demo_config ''in/b.png'' ''in'' (st_counters s1) may17
             = (Inr ''in_20240517_002'', st_counters s2)
         \<and> st_counters s2 ''20240517'' = Some 2)"
proof -
  let ?pre = "[''in/a.jpg'', ''in/c.jpg'', ''in/bad.jpg'']"
  have fin: "finite {''out''}" by simp
  have date: "naming_date demo_world ''in/b.png'' = Some may17" by code_simp
  have valid: "list_all (named_validly demo_world) (?pre @ [''in/b.png''])" by code_simp
  have count: "length (filter (named_on demo_world may17) ?pre) = 1" by code_simp
  have key: "strftime_Ymd may17 = ''20240517''" by code_simp
  have number: "fmt_03d 2 = ''002''" by code_simp
  have stem: "path_stem demo_world ''in/b.png'' = ''b''" by (simp add: demo_world_def)
  have "finite (st_disk (loop_start {''out''} ()))" by (simp add: loop_start_def)
  from process_loop_run [OF this, of ?pre demo_world demo_config "''in''" "''JPEG''" "''.jpg''" 4
      None]
  obtain s1 where loop: "process_loop demo_world demo_config ''in'' ''JPEG'' ''.jpg'' 4 None
      ?pre (loop_start {''out''} ()) = Some (Inr (), s1)"
    by (auto simp add: demo_world_def)
  from same_day_counters_count_up [OF fin loop date valid]
  obtain r s2 where "process_file demo_world demo_config ''in'' ''JPEG'' ''.jpg'' 4 None
        ''in/b.png'' s1 = Some (r, s2)"
    "build_base_name demo_world demo_config ''in/b.png'' ''in'' (st_counters s1) may17
        = (Inr ''in_20240517_002'', st_counters s2)"
    "st_counters s2 ''20240517'' = Some 2"
    unfolding Let_def count key
    by (auto simp add: number stem demo_world_def demo_config_def)
  with loop have "\<exists>s1 r s2.
         process_loop demo_world demo_config ''in'' ''JPEG'' ''.jpg'' 4 None
           ?pre (loop_start {''out''} ()) = Some (Inr (), s1)
         \<and> process_file demo_world demo_config ''in'' ''JPEG'' ''.jpg'' 4 None ''in/b.png'' s1
             = Some (r, s2)
         \<and> build_base_name demo_world demo_config ''in/b.png'' ''in'' (st_counters s1) may17
             = (Inr ''in_20240517_002'', st_counters s2)
         \<and> st_counters s2 ''20240517'' = Some 2"
    by blast
  with fin date valid count show ?thesis by simp
qed

end
